theory Spec2Isabelle
  imports Complex_Main
begin

section \<open>Data model of \<open>optimize_IMU_only.py\<close>\<close>

text \<open>
  The script builds a GTSAM factor graph from an IMU sample stream, seeds initial values by
  forward integration and hands both to a Gauss-Newton optimizer. The GTSAM objects are
  modelled by value: three-vectors and rotation matrices over the reals, poses and
  navigation states as records, noise models and factors as datatypes.
\<close>

type_synonym vec3 = "real \<times> real \<times> real"

type_synonym mat3 = "vec3 \<times> vec3 \<times> vec3"

record pose3 =
  rotation :: mat3
  translation :: vec3

record nav_state =
  pose :: pose3
  velocity :: vec3

datatype bias = ConstantBias vec3 vec3

datatype noise = Isotropic_Sigma nat real

text \<open>
  \<open>symbol(letter, index)\<close> wraps \<open>gtsam.symbol\<close>, which packs the letter and the index
  into one integer key. The model keeps the two components apart; the packing is injective
  for every index below \<open>2 ^ 56\<close>.
\<close>

datatype key = Key char nat

definition symbol :: "char \<Rightarrow> nat \<Rightarrow> key" where
  "symbol letter index = Key letter index"

text \<open>
  The factor constructors the script calls. \<open>'p\<close> is the preintegrated measurement an
  IMU factor carries (GTSAM copies it into the factor, so a later
  \<open>resetIntegration\<close> of the live accumulator does not change it); \<open>'c\<close> is a camera
  calibration.
\<close>

datatype ('p, 'c) factor =
    ImuFactor key key key key key 'p
  | PriorFactorPose3 key pose3 noise
  | PriorFactorVector key vec3 noise
  | PriorFactorConstantBias key bias noise
  | PriorFactorPoint3 key vec3 noise
  | ProjectionFactorPPPCal3DS2 "real \<times> real" noise key key key 'c

fun factor_keys :: "('p, 'c) factor \<Rightarrow> key list" where
  "factor_keys (ImuFactor k1 k2 k3 k4 k5 p) = [k1, k2, k3, k4, k5]"
| "factor_keys (PriorFactorPose3 k p n) = [k]"
| "factor_keys (PriorFactorVector k v n) = [k]"
| "factor_keys (PriorFactorConstantBias k b n) = [k]"
| "factor_keys (PriorFactorPoint3 k p n) = [k]"
| "factor_keys (ProjectionFactorPPPCal3DS2 z n k1 k2 k3 c) = [k1, k2, k3]"

definition graph_keys :: "('p, 'c) factor list \<Rightarrow> key set" where
  "graph_keys g = set (concat (map factor_keys g))"

datatype val = VPose3 pose3 | VVector vec3 | VBias bias | VPoint3 vec3

text \<open>
  \<open>gtsam.Values\<close> in insertion order. \<open>insert\<close> refuses a key that is already present.
  \<open>AlignmentError\<close> is the exception kind the specification names for a degenerate
  keyframe list; no statement of the script raises it.
\<close>

datatype error =
    StopIteration
  | IndexError
  | ValuesKeyAlreadyExists
  | FileNotFoundError
  | EOFError
  | NameError
  | AlignmentError

type_synonym vals = "(key \<times> val) list"

definition values_insert :: "key \<Rightarrow> val \<Rightarrow> vals \<Rightarrow> error + vals" where
  "values_insert k v m =
     (if k \<in> fst ` set m then Inl ValuesKeyAlreadyExists else Inr (m @ [(k, v)]))"

definition values_keys :: "vals \<Rightarrow> key set" where
  "values_keys m = fst ` set m"

section \<open>Algorithm parameters (lines 26 to 64)\<close>

definition zero3 :: vec3 where
  "zero3 = (0, 0, 0)"

definition IMU_bias :: bias where
  "IMU_bias = ConstantBias zero3 zero3"

definition IMU_bias_covariance :: noise where
  "IMU_bias_covariance = Isotropic_Sigma 6 1"

definition initial_velocity :: vec3 where
  "initial_velocity = zero3"

definition initial_position :: vec3 where
  "initial_position = zero3"

text \<open>
  \<open>utils.geometry.estimate_initial_orientation\<close> is not part of the file; the
  orientation it returns is a parameter.
\<close>

definition initial_state :: "mat3 \<Rightarrow> nav_state" where
  "initial_state initial_orientation =
     \<lparr>pose = \<lparr>rotation = initial_orientation, translation = initial_position\<rparr>,
      velocity = initial_velocity\<rparr>"

definition initial_pose_covariance :: noise where
  "initial_pose_covariance = Isotropic_Sigma 6 (2 / 100)"

definition initial_velocity_covariance :: noise where
  "initial_velocity_covariance = Isotropic_Sigma 3 (1 / 10)"

section \<open>Keyframe decimation (lines 86 to 92)\<close>

definition PREINTEGRATE_EVERY_FRAMES :: nat where
  "PREINTEGRATE_EVERY_FRAMES = 6"

text \<open>Python's \<open>xs[::k]\<close> for a positive stride: the elements at positions 0, k, 2k, ...\<close>

fun stride_slice :: "nat \<Rightarrow> 'a list \<Rightarrow> 'a list" where
  "stride_slice k [] = []"
| "stride_slice k (x # xs) = x # stride_slice k (drop (k - 1) xs)"

text \<open>\<open>range(0, n, k)\<close> for a positive step.\<close>

definition range_step :: "nat \<Rightarrow> nat \<Rightarrow> nat list" where
  "range_step n k = map (\<lambda>j. j * k) [0..<(n + k - 1) div k]"

definition video_frame_steps :: "nat list \<Rightarrow> nat list" where
  "video_frame_steps preintegration_steps =
     range_step (length preintegration_steps) PREINTEGRATE_EVERY_FRAMES"

definition decimate :: "nat list \<Rightarrow> nat list" where
  "decimate preintegration_steps = stride_slice PREINTEGRATE_EVERY_FRAMES preintegration_steps"

text \<open>\<open>zip(steps[:-1], steps[1:])\<close>, the pairs the iterator will hand out.\<close>

definition factor_pairs :: "nat list \<Rightarrow> (nat \<times> nat) list" where
  "factor_pairs steps = zip (butlast steps) (tl steps)"

section \<open>IMU factors (lines 93 to 119)\<close>

text \<open>
  The preintegration engine is GTSAM's. The loops are parametric in it: \<open>reset\<close> is the
  accumulator after \<open>resetIntegration()\<close>, \<open>integ p a w d\<close> the accumulator after
  \<open>integrateMeasurement(a, w, d)\<close> on \<open>p\<close>.

  The state of the loop: the graph built so far, the live accumulator, the current pair and
  what is left in the iterator \<open>imu_factor_pairs\<close>.
\<close>

record ('p, 'c) imu_state =
  factor_graph :: "('p, 'c) factor list"
  current_preintegrated_IMU :: 'p
  current_imu_factor_pair :: "nat \<times> nat"
  imu_factor_pairs :: "(nat \<times> nat) list"

text \<open>\<open>next(imu_factor_pairs)\<close> inside \<open>try ... except StopIteration: pass\<close>.\<close>

definition next_pair :: "('p, 'c) imu_state \<Rightarrow> ('p, 'c) imu_state" where
  "next_pair st =
     (case imu_factor_pairs st of
        [] \<Rightarrow> st
      | p # ps \<Rightarrow> st\<lparr>current_imu_factor_pair := p, imu_factor_pairs := ps\<rparr>)"

definition emit_factor :: "'p \<Rightarrow> ('p, 'c) imu_state \<Rightarrow> ('p, 'c) imu_state" where
  "emit_factor reset st =
     (let s = fst (current_imu_factor_pair st);
          e = snd (current_imu_factor_pair st);
          factor = ImuFactor (symbol CHR ''x'' s) (symbol CHR ''v'' s)
                     (symbol CHR ''x'' e) (symbol CHR ''v'' e) (symbol CHR ''b'' 0)
                     (current_preintegrated_IMU st)
      in next_pair (st\<lparr>factor_graph := factor_graph st @ [factor],
                       current_preintegrated_IMU := reset\<rparr>))"

text \<open>One pass of the loop body for sample \<open>i\<close>; \<open>dt[i]\<close> raises when \<open>dt\<close> is too short.\<close>

definition imu_body ::
  "'p \<Rightarrow> ('p \<Rightarrow> vec3 \<Rightarrow> vec3 \<Rightarrow> real \<Rightarrow> 'p) \<Rightarrow> real list \<Rightarrow> nat \<Rightarrow> vec3 \<Rightarrow> vec3 \<Rightarrow>
   ('p, 'c) imu_state \<Rightarrow> error + ('p, 'c) imu_state" where
  "imu_body reset integ dt i measured_acceleration measured_angular_vel st =
     (let st1 = (if i = snd (current_imu_factor_pair st) then emit_factor reset st else st)
      in if i < length dt
         then Inr (st1\<lparr>current_preintegrated_IMU :=
                        integ (current_preintegrated_IMU st1)
                          measured_acceleration measured_angular_vel (dt ! i)\<rparr>)
         else Inl IndexError)"

fun imu_loop ::
  "'p \<Rightarrow> ('p \<Rightarrow> vec3 \<Rightarrow> vec3 \<Rightarrow> real \<Rightarrow> 'p) \<Rightarrow> real list \<Rightarrow> nat \<Rightarrow> (vec3 \<times> vec3) list \<Rightarrow>
   ('p, 'c) imu_state \<Rightarrow> error + ('p, 'c) imu_state" where
  "imu_loop reset integ dt i [] st = Inr st"
| "imu_loop reset integ dt i ((a, w) # rest) st =
     (case imu_body reset integ dt i a w st of
        Inl err \<Rightarrow> Inl err
      | Inr st' \<Rightarrow> imu_loop reset integ dt (Suc i) rest st')"

text \<open>
  Lines 92 to 119: the first \<open>next\<close> is not guarded, so an empty iterator ends the run with
  \<open>StopIteration\<close>.
\<close>

definition add_imu_factors ::
  "'p \<Rightarrow> ('p \<Rightarrow> vec3 \<Rightarrow> vec3 \<Rightarrow> real \<Rightarrow> 'p) \<Rightarrow> real list \<Rightarrow> vec3 list \<Rightarrow> vec3 list \<Rightarrow>
   nat list \<Rightarrow> error + ('p, 'c) imu_state" where
  "add_imu_factors reset integ dt acc gyr steps =
     (case factor_pairs steps of
        [] \<Rightarrow> Inl StopIteration
      | p # ps \<Rightarrow>
          imu_loop reset integ dt 0 (zip acc gyr)
            \<lparr>factor_graph = [], current_preintegrated_IMU = reset,
             current_imu_factor_pair = p, imu_factor_pairs = ps\<rparr>)"

section \<open>Prior factors (lines 121 to 137)\<close>

text \<open>
  \<open>use_visual\<close> is the module constant \<open>USE_VISUAL_FACTORS\<close> (\<open>False\<close> in the file).
  \<open>preintegration_steps[0]\<close> and \<open>preintegration_steps[-1]\<close> raise on an empty list.
\<close>

definition add_prior_factors ::
  "bool \<Rightarrow> nat list \<Rightarrow> nav_state \<Rightarrow> ('p, 'c) factor list \<Rightarrow> error + ('p, 'c) factor list" where
  "add_prior_factors use_visual steps st g =
     (case steps of
        [] \<Rightarrow> Inl IndexError
      | first # _ \<Rightarrow>
          Inr (g
            @ [PriorFactorPose3 (symbol CHR ''x'' first) (pose st) initial_pose_covariance,
               PriorFactorVector (symbol CHR ''v'' first) (velocity st)
                 initial_velocity_covariance,
               PriorFactorConstantBias (symbol CHR ''b'' 0) IMU_bias IMU_bias_covariance]
            @ (if use_visual
               then [PriorFactorPoint3 (symbol CHR ''m'' 0) (1, 0, 0)
                       (Isotropic_Sigma 3 (5 / 100))]
               else [])
            @ [PriorFactorPose3 (symbol CHR ''x'' (last steps)) (pose st)
                 initial_pose_covariance,
               PriorFactorVector (symbol CHR ''v'' (last steps)) (velocity st)
                 initial_velocity_covariance]))"

section \<open>Visual factors (lines 141 to 163)\<close>

text \<open>
  A matching lists, for every landmark, the images it occurs in with its pixel coordinates.
  The cache file \<open>matching.pkl\<close> is missing, empty (just truncated) or holds a pickled
  matching. The step returns its result, the file afterwards and the trace of what it did.
\<close>

type_synonym matching = "(nat \<times> (real \<times> real)) list list"

datatype cache_file = Missing | Truncated | Pickled matching

datatype file_mode = Rb | Wb

datatype io_event = Call_detect_and_match | Open_file file_mode | Pickle_load | Pickle_dump

text \<open>
  Lines 145 to 151. With \<open>RECOMPUTE_MATCHING\<close> the detection runs and its result is then
  overwritten by what \<open>pickle.load\<close> reads from the file opened with \<open>'rb'\<close>. Without it
  the file is opened with \<open>'wb'\<close> (which truncates it) and the argument of
  \<open>pickle.dump\<close>, a name nothing has bound on this path, raises \<open>NameError\<close>.
\<close>

definition matching_step ::
  "bool \<Rightarrow> matching \<Rightarrow> cache_file \<Rightarrow> (error + matching) \<times> cache_file \<times> io_event list" where
  "matching_step RECOMPUTE_MATCHING detected file =
     (if RECOMPUTE_MATCHING
      then (case file of
              Missing \<Rightarrow> (Inl FileNotFoundError, file, [Call_detect_and_match, Open_file Rb])
            | Truncated \<Rightarrow>
                (Inl EOFError, file, [Call_detect_and_match, Open_file Rb, Pickle_load])
            | Pickled m \<Rightarrow> (Inr m, file, [Call_detect_and_match, Open_file Rb, Pickle_load]))
      else (Inl NameError, Truncated, [Open_file Wb]))"

fun projection_factors ::
  "nat list \<Rightarrow> 'c list \<Rightarrow> nat \<Rightarrow> (nat \<times> (real \<times> real)) list \<Rightarrow> ('p, 'c) factor list \<Rightarrow>
   error + ('p, 'c) factor list" where
  "projection_factors steps calibration_matrices landmark_idx [] g = Inr g"
| "projection_factors steps calibration_matrices landmark_idx
     ((image_idx, landmark_pixel_coords) # rest) g =
     (if image_idx < length steps \<and> image_idx < length calibration_matrices
      then projection_factors steps calibration_matrices landmark_idx rest
             (g @ [ProjectionFactorPPPCal3DS2 landmark_pixel_coords (Isotropic_Sigma 2 2)
                     (symbol CHR ''x'' (steps ! image_idx)) (symbol CHR ''r'' 0)
                     (symbol CHR ''m'' landmark_idx) (calibration_matrices ! image_idx)])
      else Inl IndexError)"

fun visual_loop ::
  "nat list \<Rightarrow> 'c list \<Rightarrow> nat \<Rightarrow> matching \<Rightarrow> ('p, 'c) factor list \<Rightarrow>
   error + ('p, 'c) factor list" where
  "visual_loop steps calibration_matrices landmark_idx [] g = Inr g"
| "visual_loop steps calibration_matrices landmark_idx (landmark_occurences # rest) g =
     (case projection_factors steps calibration_matrices landmark_idx landmark_occurences g of
        Inl err \<Rightarrow> Inl err
      | Inr g' \<Rightarrow> visual_loop steps calibration_matrices (Suc landmark_idx) rest g')"

section \<open>Initial values (lines 179 to 206)\<close>

text \<open>
  \<open>predict p s b\<close> is \<open>p.predict(s, b)\<close> of the engine. The loop walks the samples again
  from a reset accumulator and inserts a predicted pose and velocity at every index that is
  in the set of retained keyframes.
\<close>

definition insert_prediction ::
  "('p \<Rightarrow> nav_state \<Rightarrow> bias \<Rightarrow> nav_state) \<Rightarrow> nav_state \<Rightarrow> nat \<Rightarrow> 'p \<Rightarrow> vals \<Rightarrow> error + vals" where
  "insert_prediction predict st i p initial_values =
     (let predicted_nav_state = predict p st IMU_bias
      in case values_insert (symbol CHR ''x'' i) (VPose3 (pose predicted_nav_state))
                initial_values of
           Inl err \<Rightarrow> Inl err
         | Inr v1 \<Rightarrow>
             values_insert (symbol CHR ''v'' i) (VVector (velocity predicted_nav_state)) v1)"

fun init_loop ::
  "('p \<Rightarrow> vec3 \<Rightarrow> vec3 \<Rightarrow> real \<Rightarrow> 'p) \<Rightarrow> ('p \<Rightarrow> nav_state \<Rightarrow> bias \<Rightarrow> nav_state) \<Rightarrow>
   nav_state \<Rightarrow> real list \<Rightarrow> nat list \<Rightarrow> nat \<Rightarrow> (vec3 \<times> vec3) list \<Rightarrow> 'p \<times> vals \<Rightarrow>
   error + 'p \<times> vals" where
  "init_loop integ predict st dt steps i [] (p, initial_values) = Inr (p, initial_values)"
| "init_loop integ predict st dt steps i ((a, w) # rest) (p, initial_values) =
     (case (if i \<in> set steps then insert_prediction predict st i p initial_values
            else Inr initial_values) of
        Inl err \<Rightarrow> Inl err
      | Inr v' \<Rightarrow>
          if i < length dt
          then init_loop integ predict st dt steps (Suc i) rest (integ p a w (dt ! i), v')
          else Inl IndexError)"

text \<open>
  Lines 197 to 206: the camera extrinsics and one random point per landmark;
  \<open>rand j\<close> is the \<open>j\<close>-th draw of \<open>np.random.rand(3)\<close>.
\<close>

fun landmark_values :: "(nat \<Rightarrow> vec3) \<Rightarrow> nat list \<Rightarrow> vals \<Rightarrow> error + vals" where
  "landmark_values rand [] initial_values = Inr initial_values"
| "landmark_values rand (landmark_idx # rest) initial_values =
     (case values_insert (symbol CHR ''m'' landmark_idx) (VPoint3 (rand landmark_idx))
             initial_values of
        Inl err \<Rightarrow> Inl err
      | Inr v' \<Rightarrow> landmark_values rand rest v')"

definition body_camera_guess :: pose3 where
  "body_camera_guess =
     \<lparr>rotation = ((0, -1, 0), (-1, 0, 0), (0, 0, -1)), translation = zero3\<rparr>"

definition visual_values :: "(nat \<Rightarrow> vec3) \<Rightarrow> matching \<Rightarrow> vals \<Rightarrow> error + vals" where
  "visual_values rand landmarks_to_images initial_values =
     (case values_insert (symbol CHR ''r'' 0) (VPose3 body_camera_guess) initial_values of
        Inl err \<Rightarrow> Inl err
      | Inr v' \<Rightarrow> landmark_values rand [0..<length landmarks_to_images] v')"

definition make_initial_values ::
  "'p \<Rightarrow> ('p \<Rightarrow> vec3 \<Rightarrow> vec3 \<Rightarrow> real \<Rightarrow> 'p) \<Rightarrow> ('p \<Rightarrow> nav_state \<Rightarrow> bias \<Rightarrow> nav_state) \<Rightarrow>
   nav_state \<Rightarrow> real list \<Rightarrow> vec3 list \<Rightarrow> vec3 list \<Rightarrow> nat list \<Rightarrow> error + vals" where
  "make_initial_values reset integ predict st dt acc gyr steps =
     (case values_insert (symbol CHR ''b'' 0) (VBias IMU_bias) [] of
        Inl err \<Rightarrow> Inl err
      | Inr v0 \<Rightarrow>
          (case init_loop integ predict st dt steps 0 (zip acc gyr) (reset, v0) of
             Inl err \<Rightarrow> Inl err
           | Inr (p, v') \<Rightarrow> Inr v'))"

section \<open>Optimization and the whole run (lines 66 to 214)\<close>

text \<open>
  The Gauss-Newton optimizer is GTSAM's. After \<open>optimize()\<close> the optimizer object holds
  the estimate, the number of iterations it made and whether it met its tolerance;
  \<open>optimize()\<close> itself returns the estimate, and that is what the script binds to
  \<open>optimization_result\<close>.
\<close>

record solver_outcome =
  estimate :: vals
  iterations :: nat
  converged :: bool

text \<open>
  What \<open>utils.preintegration.build_steps\<close> returned: \<open>dt\<close>,
  \<open>preintegration_steps\<close>, \<open>acc\<close> and \<open>gyr\<close>.
\<close>

record built_steps =
  b_dt :: "real list"
  b_steps :: "nat list"
  b_acc :: "vec3 list"
  b_gyr :: "vec3 list"

text \<open>What the visual path reads from outside: intrinsics, detection, cache file, random draws.\<close>

record 'c visual_inputs =
  v_camera_intrinsics :: "nat \<Rightarrow> 'c"
  v_detected :: matching
  v_cache :: cache_file
  v_rand :: "nat \<Rightarrow> vec3"

record ('p, 'c) run_result =
  graph :: "('p, 'c) factor list"
  initial_values :: vals
  optimization_result :: vals

definition add_visual_factors ::
  "bool \<Rightarrow> 'c visual_inputs \<Rightarrow> nat list \<Rightarrow> nat list \<Rightarrow> ('p, 'c) factor list \<Rightarrow>
   error + matching \<times> ('p, 'c) factor list" where
  "add_visual_factors RECOMPUTE_MATCHING vis full_steps steps g =
     (let calibration_matrices = map (v_camera_intrinsics vis) (video_frame_steps full_steps)
      in case fst (matching_step RECOMPUTE_MATCHING (v_detected vis) (v_cache vis)) of
           Inl err \<Rightarrow> Inl err
         | Inr landmarks_to_images \<Rightarrow>
             (case visual_loop steps calibration_matrices 0 landmarks_to_images g of
                Inl err \<Rightarrow> Inl err
              | Inr g' \<Rightarrow> Inr (landmarks_to_images, g')))"

text \<open>
  Graph and initial values as the script assembles them, in the order of the file.
  \<open>decimate\<close> rebinds \<open>preintegration_steps\<close> on line 88.
\<close>

definition assemble ::
  "bool \<Rightarrow> bool \<Rightarrow> 'p \<Rightarrow> ('p \<Rightarrow> vec3 \<Rightarrow> vec3 \<Rightarrow> real \<Rightarrow> 'p) \<Rightarrow>
   ('p \<Rightarrow> nav_state \<Rightarrow> bias \<Rightarrow> nav_state) \<Rightarrow> mat3 \<Rightarrow> built_steps \<Rightarrow> 'c visual_inputs \<Rightarrow>
   error + ('p, 'c) factor list \<times> vals" where
  "assemble USE_VISUAL_FACTORS RECOMPUTE_MATCHING reset integ predict initial_orientation
     built vis =
     (let steps = decimate (b_steps built);
          st = initial_state initial_orientation
      in case add_imu_factors reset integ (b_dt built) (b_acc built) (b_gyr built) steps of
           Inl err \<Rightarrow> Inl err
         | Inr imu \<Rightarrow>
       (case add_prior_factors USE_VISUAL_FACTORS steps st (factor_graph imu) of
           Inl err \<Rightarrow> Inl err
         | Inr g1 \<Rightarrow>
       (case (if USE_VISUAL_FACTORS
              then add_visual_factors RECOMPUTE_MATCHING vis (b_steps built)
                     steps g1
              else Inr ([], g1)) of
           Inl err \<Rightarrow> Inl err
         | Inr (landmarks_to_images, g2) \<Rightarrow>
       (case make_initial_values reset integ predict st (b_dt built) (b_acc built) (b_gyr built)
               steps of
           Inl err \<Rightarrow> Inl err
         | Inr v1 \<Rightarrow>
       (case (if USE_VISUAL_FACTORS then visual_values (v_rand vis) landmarks_to_images v1
              else Inr v1) of
           Inl err \<Rightarrow> Inl err
         | Inr v2 \<Rightarrow> Inr (g2, v2))))))"

definition main ::
  "bool \<Rightarrow> bool \<Rightarrow> 'p \<Rightarrow> ('p \<Rightarrow> vec3 \<Rightarrow> vec3 \<Rightarrow> real \<Rightarrow> 'p) \<Rightarrow>
   ('p \<Rightarrow> nav_state \<Rightarrow> bias \<Rightarrow> nav_state) \<Rightarrow>
   (('p, 'c) factor list \<Rightarrow> vals \<Rightarrow> solver_outcome) \<Rightarrow> mat3 \<Rightarrow> built_steps \<Rightarrow>
   'c visual_inputs \<Rightarrow> error + ('p, 'c) run_result" where
  "main USE_VISUAL_FACTORS RECOMPUTE_MATCHING reset integ predict optimizer
     initial_orientation built vis =
     (case assemble USE_VISUAL_FACTORS RECOMPUTE_MATCHING reset integ predict
             initial_orientation built vis of
        Inl err \<Rightarrow> Inl err
      | Inr (g, v) \<Rightarrow>
          Inr \<lparr>graph = g, initial_values = v,
               optimization_result = estimate (optimizer g v)\<rparr>)"

section \<open>The preintegration engine\<close>

text \<open>
  A recording engine: the accumulator is the list of the samples integrated since the last
  reset. Every engine's accumulator is a function of that list, so what the recording
  engine holds in a factor is what any engine has integrated into it.
\<close>

type_synonym recording = "(vec3 \<times> vec3 \<times> real) list"

definition rec_reset :: recording where
  "rec_reset = []"

definition rec_integ :: "recording \<Rightarrow> vec3 \<Rightarrow> vec3 \<Rightarrow> real \<Rightarrow> recording" where
  "rec_integ p a w d = p @ [(a, w, d)]"

text \<open>
  Modelled from the spec: GTSAM's \<open>PreintegratedImuMeasurements\<close> (\<open>resetIntegration\<close>
  and \<open>predict\<close>) is not in the source file. Section 4.1 of the specification: reset
  clears the delta-rotation to identity and delta-velocity and delta-position to zero;
  predict composes the accumulated delta onto the reference pose and velocity, rotating the
  delta quantities into the reference frame and adding the effect of gravity over the
  elapsed window time. Gravity is that of \<open>MakeSharedU(9.81)\<close>, Z axis up.
\<close>

record pim =
  deltaRij :: mat3
  deltaVij :: vec3
  deltaPij :: vec3
  deltaTij :: real

definition identity3 :: mat3 where
  "identity3 = ((1, 0, 0), (0, 1, 0), (0, 0, 1))"

fun add3 :: "vec3 \<Rightarrow> vec3 \<Rightarrow> vec3" where
  "add3 (a, b, c) (x, y, z) = (a + x, b + y, c + z)"

fun scale3 :: "real \<Rightarrow> vec3 \<Rightarrow> vec3" where
  "scale3 k (x, y, z) = (k * x, k * y, k * z)"

fun dot3 :: "vec3 \<Rightarrow> vec3 \<Rightarrow> real" where
  "dot3 (a, b, c) (x, y, z) = a * x + b * y + c * z"

fun mat_vec :: "mat3 \<Rightarrow> vec3 \<Rightarrow> vec3" where
  "mat_vec (r1, r2, r3) v = (dot3 r1 v, dot3 r2 v, dot3 r3 v)"

fun transpose3 :: "mat3 \<Rightarrow> mat3" where
  "transpose3 ((a, b, c), (d, e, f), (g, h, i)) = ((a, d, g), (b, e, h), (c, f, i))"

fun mat_mul :: "mat3 \<Rightarrow> mat3 \<Rightarrow> mat3" where
  "mat_mul (r1, r2, r3) m =
     (mat_vec (transpose3 m) r1, mat_vec (transpose3 m) r2, mat_vec (transpose3 m) r3)"

definition gravity :: vec3 where
  "gravity = (0, 0, - (981 / 100))"

text \<open>
  Modelled from the spec: \<open>resetIntegration\<close> of GTSAM's engine, which is not in the
  source file. Section 4.1: reset clears the delta-rotation to identity and delta-velocity
  and delta-position to zero; no time has elapsed.
\<close>

definition resetIntegration :: pim where
  "resetIntegration =
     \<lparr>deltaRij = identity3, deltaVij = zero3, deltaPij = zero3, deltaTij = 0\<rparr>"

text \<open>
  Modelled from the spec: \<open>predict\<close> of GTSAM's engine, which is not in the source
  file. Section 4.1: the accumulated delta is composed onto the reference pose and velocity,
  the delta quantities rotated into the reference frame, the effect of gravity over the
  elapsed window time added.
\<close>

definition predict_pim :: "pim \<Rightarrow> nav_state \<Rightarrow> bias \<Rightarrow> nav_state" where
  "predict_pim p st b =
     (let R = rotation (pose st); t = deltaTij p
      in \<lparr>pose =
            \<lparr>rotation = mat_mul R (deltaRij p),
             translation =
               add3 (add3 (add3 (translation (pose st)) (scale3 t (velocity st)))
                       (scale3 (t * t / 2) gravity))
                 (mat_vec R (deltaPij p))\<rparr>,
          velocity = add3 (add3 (velocity st) (scale3 t gravity)) (mat_vec R (deltaVij p))\<rparr>)"

section \<open>What the factors carry\<close>

text \<open>
  The accumulator after integrating the samples with indices \<open>lo, ..., hi - 1\<close>, in this
  order, into \<open>p\<close>.
\<close>

definition integrate_range ::
  "('p \<Rightarrow> vec3 \<Rightarrow> vec3 \<Rightarrow> real \<Rightarrow> 'p) \<Rightarrow> real list \<Rightarrow> vec3 list \<Rightarrow> vec3 list \<Rightarrow>
   nat \<Rightarrow> nat \<Rightarrow> 'p \<Rightarrow> 'p" where
  "integrate_range integ dt acc gyr lo hi p =
     foldl (\<lambda>q i. integ q (acc ! i) (gyr ! i) (dt ! i)) p [lo..<hi]"

definition imu_factor_of :: "nat \<Rightarrow> nat \<Rightarrow> 'p \<Rightarrow> ('p, 'c) factor" where
  "imu_factor_of s e p =
     ImuFactor (symbol CHR ''x'' s) (symbol CHR ''v'' s)
       (symbol CHR ''x'' e) (symbol CHR ''v'' e) (symbol CHR ''b'' 0) p"

text \<open>
  One factor per pair: the first carries the samples from \<open>lo\<close> on integrated into \<open>p\<close>,
  every later one the samples from the end of the pair before it, integrated from reset.
\<close>

fun pair_factors ::
  "'p \<Rightarrow> ('p \<Rightarrow> vec3 \<Rightarrow> vec3 \<Rightarrow> real \<Rightarrow> 'p) \<Rightarrow> real list \<Rightarrow> vec3 list \<Rightarrow> vec3 list \<Rightarrow>
   nat \<Rightarrow> 'p \<Rightarrow> (nat \<times> nat) list \<Rightarrow> ('p, 'c) factor list" where
  "pair_factors reset integ dt acc gyr lo p [] = []"
| "pair_factors reset integ dt acc gyr lo p ((s, e) # ps) =
     imu_factor_of s e (integrate_range integ dt acc gyr lo e p)
       # pair_factors reset integ dt acc gyr e reset ps"

text \<open>The half-open index ranges \<open>(lo, hi)\<close> of consecutive factors, the first from \<open>lo\<close>.\<close>

fun ranges_from :: "nat \<Rightarrow> nat list \<Rightarrow> (nat \<times> nat) list" where
  "ranges_from lo [] = []"
| "ranges_from lo (e # es) = (lo, e) # ranges_from e es"

definition factor_ranges :: "nat list \<Rightarrow> (nat \<times> nat) list" where
  "factor_ranges steps = ranges_from 0 (tl steps)"

definition range_indices :: "(nat \<times> nat) list \<Rightarrow> nat list" where
  "range_indices rs = concat (map (\<lambda>(lo, hi). [lo..<hi]) rs)"

text \<open>The preintegrated measurements the IMU factors of a graph carry, in graph order.\<close>

fun imu_measurements :: "('p, 'c) factor list \<Rightarrow> 'p list" where
  "imu_measurements [] = []"
| "imu_measurements (ImuFactor k1 k2 k3 k4 k5 p # g) = p # imu_measurements g"
| "imu_measurements (f # g) = imu_measurements g"

definition sample_count :: "vec3 list \<Rightarrow> vec3 list \<Rightarrow> nat" where
  "sample_count acc gyr = min (length acc) (length gyr)"

text \<open>The keys a run over the keyframes \<open>steps\<close> may mention.\<close>

definition step_keys :: "nat set \<Rightarrow> key set" where
  "step_keys S = insert (symbol CHR ''b'' 0)
     ((\<lambda>k. symbol CHR ''x'' k) ` S \<union> (\<lambda>k. symbol CHR ''v'' k) ` S)"

text \<open>
  What the IMU loop maintains about keys: the graph and the pairs still to come mention
  keyframes of \<open>S\<close> only.
\<close>

definition keys_inv :: "nat set \<Rightarrow> ('p, 'c) imu_state \<Rightarrow> bool" where
  "keys_inv S st =
     (graph_keys (factor_graph st) \<subseteq> step_keys S \<and>
      fst (current_imu_factor_pair st) \<in> S \<and> snd (current_imu_factor_pair st) \<in> S \<and>
      fst ` set (imu_factor_pairs st) \<subseteq> S \<and> snd ` set (imu_factor_pairs st) \<subseteq> S)"

definition return_to_start_priors :: "nat list \<Rightarrow> nav_state \<Rightarrow> ('p, 'c) factor list" where
  "return_to_start_priors steps st =
     [PriorFactorPose3 (symbol CHR ''x'' (last steps)) (pose st) initial_pose_covariance,
      PriorFactorVector (symbol CHR ''v'' (last steps)) (velocity st)
        initial_velocity_covariance]"

section \<open>An example run\<close>

text \<open>
  \<open>n\<close> IMU samples, the \<open>i\<close>-th with acceleration \<open>(i, 0, 0)\<close>, and one camera frame at
  each of the first \<open>m\<close> of them.
\<close>

definition example_built :: "nat \<Rightarrow> nat \<Rightarrow> built_steps" where
  "example_built m n =
     \<lparr>b_dt = replicate n (1 / 200), b_steps = [0..<m],
      b_acc = map (\<lambda>i. (real i, 0, 0)) [0..<n], b_gyr = replicate n zero3\<rparr>"

definition example_vis :: "unit visual_inputs" where
  "example_vis =
     \<lparr>v_camera_intrinsics = (\<lambda>i. ()), v_detected = [(0, (1, 2))] # [],
      v_cache = Pickled ([(1, (3, 4))] # []), v_rand = (\<lambda>j. zero3)\<rparr>"

definition keep_reference :: "recording \<Rightarrow> nav_state \<Rightarrow> bias \<Rightarrow> nav_state" where
  "keep_reference p st b = st"

definition example_solver :: "nat \<Rightarrow> bool \<Rightarrow> ('p, 'c) factor list \<Rightarrow> vals \<Rightarrow> solver_outcome" where
  "example_solver n ok g v = \<lparr>estimate = v, iterations = n, converged = ok\<rparr>"

section \<open>The IMU factor loop\<close>

lemma zip_nth_map:
  "zip acc gyr = map (\<lambda>j. (acc ! j, gyr ! j)) [0..<sample_count acc gyr]"
  by (rule nth_equalityI) (simp_all add: sample_count_def)

lemma integrate_range_empty [simp]: "hi \<le> lo \<Longrightarrow> integrate_range integ dt acc gyr lo hi p = p"
  by (simp add: integrate_range_def)

lemma upt_split: "i \<le> e \<Longrightarrow> e < N \<Longrightarrow> [i..<N] = [i..<e] @ e # [Suc e..<N]"
  using upt_add_eq_append[of i e "N - e"] by (simp add: upt_conv_Cons)

lemma integrate_range_Suc:
  "lo < hi \<Longrightarrow> integrate_range integ dt acc gyr lo hi p =
     integrate_range integ dt acc gyr (Suc lo) hi (integ p (acc ! lo) (gyr ! lo) (dt ! lo))"
  by (simp add: integrate_range_def upt_conv_Cons)

lemma hd_le_last: "sorted_wrt (<) (x # xs) \<Longrightarrow> (x::nat) \<le> last (x # xs)"
proof (cases "xs = []")
  case False
  assume "sorted_wrt (<) (x # xs)"
  then have "\<forall>y\<in>set xs. x < y" by simp
  moreover have "last xs \<in> set xs" using False by simp
  ultimately show ?thesis using False by (simp add: less_imp_le)
qed simp

lemma imu_loop_append:
  "imu_loop reset integ dt i (xs @ ys) st =
     (case imu_loop reset integ dt i xs st of
        Inl err \<Rightarrow> Inl err
      | Inr st' \<Rightarrow> imu_loop reset integ dt (i + length xs) ys st')"
  by (induction xs arbitrary: i st) (auto split: sum.splits)

lemma imu_loop_no_boundary:
  "hi \<le> length dt \<Longrightarrow> (\<forall>j. i \<le> j \<and> j < hi \<longrightarrow> j \<noteq> snd (current_imu_factor_pair st)) \<Longrightarrow>
   imu_loop reset integ dt i (map (\<lambda>j. (acc ! j, gyr ! j)) [i..<hi]) st =
     Inr (st\<lparr>current_preintegrated_IMU :=
              integrate_range integ dt acc gyr i hi (current_preintegrated_IMU st)\<rparr>)"
proof (induction "hi - i" arbitrary: i st)
  case 0
  then show ?case by simp
next
  case (Suc n)
  then have lt: "i < hi" by simp
  have body: "imu_body reset integ dt i (acc ! i) (gyr ! i) st =
      Inr (st\<lparr>current_preintegrated_IMU :=
               integ (current_preintegrated_IMU st) (acc ! i) (gyr ! i) (dt ! i)\<rparr>)"
    using Suc.prems lt by (simp add: imu_body_def)
  have "n = hi - Suc i" using Suc.hyps(2) by simp
  from Suc.hyps(1)[OF this, of "st\<lparr>current_preintegrated_IMU :=
               integ (current_preintegrated_IMU st) (acc ! i) (gyr ! i) (dt ! i)\<rparr>"]
  show ?case using Suc.prems lt body
    by (simp add: upt_conv_Cons integrate_range_Suc[OF lt])
qed

lemma imu_body_boundary:
  "e < length dt \<Longrightarrow> snd (current_imu_factor_pair st) = e \<Longrightarrow>
   imu_body reset integ dt e a w st =
     Inr ((next_pair (st\<lparr>factor_graph := factor_graph st
               @ [imu_factor_of (fst (current_imu_factor_pair st)) e (current_preintegrated_IMU st)],
             current_preintegrated_IMU := reset\<rparr>))
          \<lparr>current_preintegrated_IMU := integ reset a w (dt ! e)\<rparr>)"
  by (simp add: imu_body_def emit_factor_def imu_factor_of_def Let_def next_pair_def split: list.splits)

lemma imu_loop_pairs:
  assumes "sorted_wrt (<) (map snd (pr # ps))" "i \<le> snd pr" "snd (last (pr # ps)) < N"
    "N \<le> length dt" "current_imu_factor_pair st = pr" "imu_factor_pairs st = ps"
  shows "imu_loop reset integ dt i (map (\<lambda>j. (acc ! j, gyr ! j)) [i..<N]) st =
     Inr \<lparr>factor_graph = factor_graph st
            @ pair_factors reset integ dt acc gyr i (current_preintegrated_IMU st) (pr # ps),
          current_preintegrated_IMU =
            integrate_range integ dt acc gyr (snd (last (pr # ps))) N reset,
          current_imu_factor_pair = last (pr # ps), imu_factor_pairs = []\<rparr>"
  using assms
proof (induction ps arbitrary: pr i st)
  case Nil
  obtain s e where pr: "pr = (s, e)" by (cases pr)
  with Nil have e: "i \<le> e" "e < N" "N \<le> length dt" by simp_all
  let ?f = "\<lambda>j. (acc ! j, gyr ! j)"
  let ?st1 = "st\<lparr>current_preintegrated_IMU :=
              integrate_range integ dt acc gyr i e (current_preintegrated_IMU st)\<rparr>"
  have split: "map ?f [i..<N] = map ?f [i..<e] @ [?f e] @ map ?f [Suc e..<N]"
    using e by (simp add: upt_split[of i e N])
  have s1: "imu_loop reset integ dt i (map ?f [i..<e]) st = Inr ?st1"
    using e Nil.prems pr by (intro imu_loop_no_boundary) auto
  have s2: "imu_body reset integ dt e (acc ! e) (gyr ! e) ?st1 =
     Inr ((next_pair (?st1\<lparr>factor_graph := factor_graph ?st1
               @ [imu_factor_of (fst (current_imu_factor_pair ?st1)) e (current_preintegrated_IMU ?st1)],
             current_preintegrated_IMU := reset\<rparr>))
          \<lparr>current_preintegrated_IMU := integ reset (acc ! e) (gyr ! e) (dt ! e)\<rparr>)"
    using e Nil.prems pr by (intro imu_body_boundary) auto
  show ?case
    using e Nil.prems pr s1 s2
    apply (simp add: split imu_loop_append next_pair_def)
    apply (subst imu_loop_no_boundary)
      apply (auto simp: integrate_range_Suc[of e N])
    done
next
  case (Cons pr' ps')
  obtain s e where pr: "pr = (s, e)" by (cases pr)
  obtain s' e' where pr': "pr' = (s', e')" by (cases pr')
  with Cons.prems pr have e: "i \<le> e" "e < e'" "N \<le> length dt" by simp_all
  have "e' \<le> snd (last (pr' # ps'))"
    using hd_le_last[of "snd pr'" "map snd ps'"] Cons.prems(1) pr'
    by (auto simp: last_map)
  then have eN: "e < N" "e' < N" using Cons.prems(3) e by auto
  let ?f = "\<lambda>j. (acc ! j, gyr ! j)"
  let ?st1 = "st\<lparr>current_preintegrated_IMU :=
              integrate_range integ dt acc gyr i e (current_preintegrated_IMU st)\<rparr>"
  let ?st2 = "(next_pair (?st1\<lparr>factor_graph := factor_graph ?st1
               @ [imu_factor_of (fst (current_imu_factor_pair ?st1)) e (current_preintegrated_IMU ?st1)],
             current_preintegrated_IMU := reset\<rparr>))
          \<lparr>current_preintegrated_IMU := integ reset (acc ! e) (gyr ! e) (dt ! e)\<rparr>"
  have split: "map ?f [i..<N] = map ?f [i..<e] @ [?f e] @ map ?f [Suc e..<N]"
    using e eN by (simp add: upt_split[of i e N])
  have s1: "imu_loop reset integ dt i (map ?f [i..<e]) st = Inr ?st1"
    using e eN Cons.prems pr by (intro imu_loop_no_boundary) auto
  have s2: "imu_body reset integ dt e (acc ! e) (gyr ! e) ?st1 = Inr ?st2"
    using e eN Cons.prems pr by (intro imu_body_boundary) auto
  have s3: "imu_loop reset integ dt (Suc e) (map ?f [Suc e..<N]) ?st2 =
     Inr \<lparr>factor_graph = factor_graph ?st2
            @ pair_factors reset integ dt acc gyr (Suc e) (current_preintegrated_IMU ?st2) (pr' # ps'),
          current_preintegrated_IMU =
            integrate_range integ dt acc gyr (snd (last (pr' # ps'))) N reset,
          current_imu_factor_pair = last (pr' # ps'), imu_factor_pairs = []\<rparr>"
    using e eN Cons.prems pr pr' by (intro Cons.IH) (auto simp: next_pair_def)
  show ?case
    using e eN Cons.prems pr pr' s1 s2 s3
    by (simp add: split imu_loop_append next_pair_def integrate_range_Suc[of e e'])
qed

subsection \<open>Closed form of the emitted factors\<close>

lemma zip_butlast_tl: "zip (butlast xs) (tl xs) = zip xs (tl xs)"
proof -
  let ?n = "length xs - 1"
  have "zip (butlast xs) (tl xs) = zip (take ?n xs) (take ?n (tl xs))"
    by (simp add: butlast_conv_take)
  also have "\<dots> = take ?n (zip xs (tl xs))"
    by (simp only: take_zip)
  also have "\<dots> = zip xs (tl xs)"
    by simp
  finally show ?thesis .
qed

lemma length_factor_pairs: "length (factor_pairs steps) = length steps - 1"
  by (simp add: factor_pairs_def)

lemma factor_pairs_snd: "map snd (factor_pairs steps) = tl steps"
  by (simp add: factor_pairs_def map_snd_zip_take)

lemma factor_pairs_nth:
  "k < length steps - 1 \<Longrightarrow> factor_pairs steps ! k = (steps ! k, steps ! Suc k)"
  by (simp add: factor_pairs_def nth_butlast nth_tl)


lemma add_imu_factors_result:
  assumes "sorted_wrt (<) steps" "2 \<le> length steps"
    "last steps < sample_count acc gyr" "sample_count acc gyr \<le> length dt"
  shows "add_imu_factors reset integ dt acc gyr steps =
     Inr \<lparr>factor_graph = pair_factors reset integ dt acc gyr 0 reset (factor_pairs steps),
          current_preintegrated_IMU =
            integrate_range integ dt acc gyr (last steps) (sample_count acc gyr) reset,
          current_imu_factor_pair = last (factor_pairs steps), imu_factor_pairs = []\<rparr>"
proof -
  from assms(2) obtain pr ps where fp: "factor_pairs steps = pr # ps"
    using length_factor_pairs[of steps] by (cases "factor_pairs steps") auto
  have tl: "tl steps \<noteq> []" using assms(2) by (cases steps) auto
  have snds: "map snd (pr # ps) = tl steps" using factor_pairs_snd[of steps] fp by simp
  have sorted: "sorted_wrt (<) (map snd (pr # ps))"
    using assms(1) snds by (cases steps) auto
  have "snd (last (pr # ps)) = last (map snd (pr # ps))" by (simp add: last_map)
  also have "\<dots> = last steps" using snds tl by (simp add: last_tl)
  finally have lst: "snd (last (pr # ps)) = last steps" .
  let ?st0 = "\<lparr>factor_graph = [], current_preintegrated_IMU = reset,
          current_imu_factor_pair = pr, imu_factor_pairs = ps\<rparr> :: ('a, 'b) imu_state"
  let ?N = "sample_count acc gyr"
  have "add_imu_factors reset integ dt acc gyr steps =
      imu_loop reset integ dt 0 (map (\<lambda>j. (acc ! j, gyr ! j)) [0..<?N]) ?st0"
    unfolding add_imu_factors_def fp zip_nth_map[of acc gyr] by simp
  also have "\<dots> = Inr \<lparr>factor_graph = factor_graph ?st0
            @ pair_factors reset integ dt acc gyr 0 (current_preintegrated_IMU ?st0) (pr # ps),
          current_preintegrated_IMU =
            integrate_range integ dt acc gyr (snd (last (pr # ps))) ?N reset,
          current_imu_factor_pair = last (pr # ps), imu_factor_pairs = []\<rparr>"
    using sorted assms(3,4) lst by (intro imu_loop_pairs) simp_all
  finally show ?thesis unfolding lst fp by simp
qed


lemma length_ranges_from [simp]: "length (ranges_from lo es) = length es"
  by (induction es arbitrary: lo) auto


lemma ranges_from_nth:
  "k < length es \<Longrightarrow> ranges_from lo es ! k = (if k = 0 then lo else es ! (k - 1), es ! k)"
proof (induction es arbitrary: lo k)
  case Nil
  then show ?case by simp
next
  case (Cons e es)
  then show ?case by (cases k) (auto simp: nth_Cons split: nat.splits)
qed


lemma pair_factors_map2:
  "pair_factors reset integ dt acc gyr lo reset ps =
     map2 (\<lambda>(s, e) (lo, hi). imu_factor_of s e (integrate_range integ dt acc gyr lo hi reset))
       ps (ranges_from lo (map snd ps))"
  by (induction ps arbitrary: lo) auto


lemma range_indices_ranges_from:
  "sorted_wrt (<) (lo # es) \<Longrightarrow> es \<noteq> [] \<Longrightarrow> range_indices (ranges_from lo es) = [lo..<last es]"
proof (induction es arbitrary: lo)
  case Nil
  then show ?case by simp
next
  case (Cons e es)
  show ?case
  proof (cases "es = []")
    case True
    then show ?thesis by (simp add: range_indices_def)
  next
    case False
    have "e \<le> last (e # es)" using hd_le_last[of e es] Cons.prems(1) by simp
    then have le: "lo \<le> e" "e \<le> last es" using Cons.prems(1) False by auto
    have "range_indices (ranges_from e es) = [e..<last es]"
      using Cons.IH[of e] Cons.prems(1) False by simp
    moreover have "[lo..<last es] = [lo..<e] @ [e..<last es]"
      using le upt_add_eq_append[of lo e "last es - e"] by simp
    ultimately show ?thesis using False
      by (cases es) (simp_all add: range_indices_def)
  qed
qed

subsection \<open>The example run\<close>

lemma ex7_steps: "decimate (b_steps (example_built 7 7)) = [0, 6]"
  by (simp add: example_built_def decimate_def PREINTEGRATE_EVERY_FRAMES_def upt_rec)

lemma ex13_steps: "decimate (b_steps (example_built 13 13)) = [0, 6, 12]"
  by (simp add: example_built_def decimate_def PREINTEGRATE_EVERY_FRAMES_def upt_rec)

lemma ex_count: "sample_count (b_acc (example_built m n)) (b_gyr (example_built m n)) = n"
  "length (b_dt (example_built m n)) = n"
  by (simp_all add: example_built_def sample_count_def)

lemma ex_nth: "i < n \<Longrightarrow> b_acc (example_built m n) ! i = (real i, 0, 0)"
  "i < n \<Longrightarrow> b_gyr (example_built m n) ! i = zero3"
  "i < n \<Longrightarrow> b_dt (example_built m n) ! i = 1 / 200"
  by (simp_all add: example_built_def)

lemma rec_integrate_range:
  "integrate_range rec_integ dt acc gyr lo hi p = p @ map (\<lambda>i. (acc ! i, gyr ! i, dt ! i)) [lo..<hi]"
proof (induction "hi - lo" arbitrary: lo p)
  case 0
  then show ?case by simp
next
  case (Suc n)
  then have "lo < hi" "n = hi - Suc lo" by simp_all
  then show ?case using Suc.hyps(1)[of "Suc lo"]
    by (simp add: integrate_range_Suc upt_conv_Cons rec_integ_def)
qed

lemma ex7_run:
  "add_imu_factors rec_reset rec_integ (b_dt (example_built 7 7))
      (b_acc (example_built 7 7)) (b_gyr (example_built 7 7))
      (decimate (b_steps (example_built 7 7))) =
   Inr \<lparr>factor_graph =
          [imu_factor_of 0 6 (map (\<lambda>i. ((real i, 0, 0), zero3, 1 / 200)) [0..<6])],
        current_preintegrated_IMU = [((6, 0, 0), zero3, 1 / 200)],
        current_imu_factor_pair = (0, 6), imu_factor_pairs = []\<rparr>"
proof -
  have "add_imu_factors rec_reset rec_integ (b_dt (example_built 7 7))
      (b_acc (example_built 7 7)) (b_gyr (example_built 7 7)) [0, 6] =
    Inr \<lparr>factor_graph = pair_factors rec_reset rec_integ (b_dt (example_built 7 7))
      (b_acc (example_built 7 7)) (b_gyr (example_built 7 7)) 0 rec_reset (factor_pairs [0, 6]),
          current_preintegrated_IMU =
            integrate_range rec_integ (b_dt (example_built 7 7))
      (b_acc (example_built 7 7)) (b_gyr (example_built 7 7)) (last [0, 6]) (sample_count (b_acc (example_built 7 7)) (b_gyr (example_built 7 7))) rec_reset,
          current_imu_factor_pair = last (factor_pairs [0, 6]), imu_factor_pairs = []\<rparr>"
    by (rule add_imu_factors_result) (simp_all add: ex_count)
  then show ?thesis
    by (simp add: ex7_steps ex_count factor_pairs_def rec_integrate_range rec_reset_def ex_nth upt_rec)
qed

section \<open>Keys, values and priors\<close>

subsection \<open>Keys\<close>

lemma graph_keys_append [simp]: "graph_keys (g @ h) = graph_keys g \<union> graph_keys h"
  by (simp add: graph_keys_def)

lemma graph_keys_Nil [simp]: "graph_keys [] = {}"
  by (simp add: graph_keys_def)

lemma graph_keys_Cons [simp]: "graph_keys (f # g) = set (factor_keys f) \<union> graph_keys g"
  by (simp add: graph_keys_def)

lemma emit_factor_keys_inv: "keys_inv S st \<Longrightarrow> keys_inv S (emit_factor reset st)"
  by (auto simp: keys_inv_def emit_factor_def Let_def next_pair_def step_keys_def
      image_subset_iff split: list.splits)

lemma imu_body_keys_inv:
  assumes "keys_inv S st" "imu_body reset integ dt i a w st = Inr st'"
  shows "keys_inv S st'"
proof -
  let ?st1 = "if i = snd (current_imu_factor_pair st) then emit_factor reset st else st"
  have "keys_inv S ?st1" using assms(1) by (simp add: emit_factor_keys_inv)
  moreover have "st' = ?st1\<lparr>current_preintegrated_IMU :=
      integ (current_preintegrated_IMU ?st1) a w (dt ! i)\<rparr>"
    using assms(2) by (simp add: imu_body_def Let_def split: if_splits)
  ultimately show ?thesis by (simp add: keys_inv_def)
qed

lemma imu_loop_keys_inv:
  "keys_inv S st \<Longrightarrow> imu_loop reset integ dt i xs st = Inr st' \<Longrightarrow> keys_inv S st'"
proof (induction xs arbitrary: i st)
  case Nil
  then show ?case by simp
next
  case (Cons x xs)
  obtain a w where x: "x = (a, w)" by (cases x)
  from Cons.prems(2) x obtain st1 where
    b: "imu_body reset integ dt i a w st = Inr st1" and
    l: "imu_loop reset integ dt (Suc i) xs st1 = Inr st'"
    by (auto split: sum.splits)
  from imu_body_keys_inv[OF Cons.prems(1) b] l show ?case by (rule Cons.IH)
qed

lemma factor_pairs_subset: "(s, e) \<in> set (factor_pairs steps) \<Longrightarrow> s \<in> set steps \<and> e \<in> set steps"
proof -
  assume "(s, e) \<in> set (factor_pairs steps)"
  then have "s \<in> set (butlast steps)" "e \<in> set (tl steps)"
    unfolding factor_pairs_def by (auto dest: set_zip_leftD set_zip_rightD)
  then show ?thesis using in_set_butlastD[of s steps] by (cases steps) auto
qed

lemma add_imu_factors_keys:
  assumes "add_imu_factors reset integ dt acc gyr steps = Inr st"
  shows "graph_keys (factor_graph st) \<subseteq> step_keys (set steps)"
proof -
  from assms obtain pr ps where fp: "factor_pairs steps = pr # ps"
    by (cases "factor_pairs steps") (auto simp: add_imu_factors_def)
  let ?st0 = "\<lparr>factor_graph = [], current_preintegrated_IMU = reset,
       current_imu_factor_pair = pr, imu_factor_pairs = ps\<rparr> :: ('a, 'b) imu_state"
  have sub: "\<And>s e. (s, e) \<in> set (pr # ps) \<Longrightarrow> s \<in> set steps \<and> e \<in> set steps"
    using factor_pairs_subset[of _ _ steps] fp by simp
  have "keys_inv (set steps) ?st0"
    unfolding keys_inv_def using sub by (cases pr) (fastforce simp: image_subset_iff)
  moreover have "imu_loop reset integ dt 0 (zip acc gyr) ?st0 = Inr st"
    using assms fp by (simp add: add_imu_factors_def)
  ultimately have "keys_inv (set steps) st" by (rule imu_loop_keys_inv)
  then show ?thesis by (simp add: keys_inv_def)
qed

lemma add_prior_factors_keys:
  assumes "add_prior_factors False steps st g = Inr g1"
  shows "graph_keys g1 \<subseteq> graph_keys g \<union> step_keys (set steps)"
proof -
  from assms have ne: "steps \<noteq> []" by (auto simp: add_prior_factors_def split: list.splits)
  then have "hd steps \<in> set steps" "last steps \<in> set steps" by simp_all
  then show ?thesis using assms ne
    by (cases steps) (auto simp: add_prior_factors_def step_keys_def)
qed

lemma values_insert_keys:
  "values_insert k x v = Inr v' \<Longrightarrow> values_keys v' = insert k (values_keys v)"
  by (auto simp: values_insert_def values_keys_def split: if_splits)

lemma insert_prediction_keys:
  "insert_prediction predict st i p v = Inr v' \<Longrightarrow>
   values_keys v' = values_keys v \<union> {symbol CHR ''x'' i, symbol CHR ''v'' i}"
  by (auto simp: insert_prediction_def Let_def dest!: values_insert_keys split: sum.splits)

lemma init_loop_keys:
  "init_loop integ predict st dt steps i xs (p, v) = Inr (p', v') \<Longrightarrow>
   values_keys v \<subseteq> values_keys v' \<and>
   (\<forall>k\<in>set steps. i \<le> k \<and> k < i + length xs \<longrightarrow>
      symbol CHR ''x'' k \<in> values_keys v' \<and> symbol CHR ''v'' k \<in> values_keys v')"
proof (induction xs arbitrary: i p v)
  case Nil
  then show ?case by auto
next
  case (Cons x xs)
  obtain a w where x: "x = (a, w)" by (cases x)
  from Cons.prems x obtain v1 where
    v1: "(if i \<in> set steps then insert_prediction predict st i p v else Inr v) = Inr v1" and
    l: "init_loop integ predict st dt steps (Suc i) xs (integ p a w (dt ! i), v1) = Inr (p', v')"
    by (auto split: sum.splits if_splits)
  from Cons.IH[OF l] have ih: "values_keys v1 \<subseteq> values_keys v'"
    "\<forall>k\<in>set steps. Suc i \<le> k \<and> k < Suc i + length xs \<longrightarrow>
      symbol CHR ''x'' k \<in> values_keys v' \<and> symbol CHR ''v'' k \<in> values_keys v'"
    by simp_all
  have sub: "values_keys v \<subseteq> values_keys v1"
    using v1 by (auto dest!: insert_prediction_keys split: if_splits)
  have here: "i \<in> set steps \<Longrightarrow>
      symbol CHR ''x'' i \<in> values_keys v1 \<and> symbol CHR ''v'' i \<in> values_keys v1"
    using v1 by (auto dest!: insert_prediction_keys split: if_splits)
  show ?case
  proof (intro conjI ballI impI)
    show "values_keys v \<subseteq> values_keys v'" using sub ih(1) by blast
  next
    fix k assume k: "k \<in> set steps" "i \<le> k \<and> k < i + length (x # xs)"
    show "symbol CHR ''x'' k \<in> values_keys v'"
    proof (cases "k = i")
      case True
      then show ?thesis using here k(1) ih(1) by blast
    next
      case False
      then show ?thesis using ih(2) k by auto
    qed
    show "symbol CHR ''v'' k \<in> values_keys v'"
    proof (cases "k = i")
      case True
      then show ?thesis using here k(1) ih(1) by blast
    next
      case False
      then show ?thesis using ih(2) k by auto
    qed
  qed
qed

lemma make_initial_values_keys:
  assumes "make_initial_values reset integ predict st dt acc gyr steps = Inr v"
    and "\<forall>k\<in>set steps. k < sample_count acc gyr"
  shows "step_keys (set steps) \<subseteq> values_keys v"
proof -
  let ?v0 = "[(symbol CHR ''b'' 0, VBias IMU_bias)]"
  from assms(1) obtain p' where
    l: "init_loop integ predict st dt steps 0 (zip acc gyr) (reset, ?v0) = Inr (p', v)"
    by (auto simp: make_initial_values_def values_insert_def split: sum.splits)
  have len: "length (zip acc gyr) = sample_count acc gyr" by (simp add: sample_count_def)
  from init_loop_keys[OF l] have "values_keys ?v0 \<subseteq> values_keys v"
    "\<forall>k\<in>set steps. k < sample_count acc gyr \<longrightarrow>
      symbol CHR ''x'' k \<in> values_keys v \<and> symbol CHR ''v'' k \<in> values_keys v"
    unfolding len by simp_all
  then show ?thesis using assms(2) by (auto simp: step_keys_def values_keys_def)
qed

lemma main_keys:
  assumes "main False rm reset integ predict optimizer R built vis = Inr r"
    and "\<forall>k\<in>set (decimate (b_steps built)). k < sample_count (b_acc built) (b_gyr built)"
  shows "graph_keys (graph r) \<subseteq> values_keys (initial_values r)"
proof -
  let ?steps = "decimate (b_steps built)"
  from assms(1) obtain imu g1 v1 where
    a: "add_imu_factors reset integ (b_dt built) (b_acc built) (b_gyr built) ?steps = Inr imu" and
    b: "add_prior_factors False ?steps (initial_state R) (factor_graph imu) = Inr g1" and
    c: "make_initial_values reset integ predict (initial_state R) (b_dt built) (b_acc built)
          (b_gyr built) ?steps = Inr v1" and
    r: "graph r = g1" "initial_values r = v1"
    by (auto simp: main_def assemble_def Let_def split: sum.splits)
  have "graph_keys g1 \<subseteq> step_keys (set ?steps)"
    using add_imu_factors_keys[OF a] add_prior_factors_keys[OF b] by blast
  also have "\<dots> \<subseteq> values_keys v1" using make_initial_values_keys[OF c assms(2)] .
  finally show ?thesis using r by simp
qed

subsection \<open>Degenerate keyframe lists\<close>

lemma factor_pairs_short: "length steps < 2 \<Longrightarrow> factor_pairs steps = []"
  using length_factor_pairs[of steps] by (cases "factor_pairs steps") auto

lemma main_stop_iteration:
  "length (decimate (b_steps built)) < 2 \<Longrightarrow>
   main uv rm reset integ predict optimizer R built vis = Inl StopIteration"
  by (simp add: main_def assemble_def add_imu_factors_def factor_pairs_short)

lemma ex_short_steps: "decimate (b_steps (example_built 6 40)) = [0]"
  by (simp add: example_built_def decimate_def PREINTEGRATE_EVERY_FRAMES_def upt_rec)

subsection \<open>Values only grow\<close>

lemma values_insert_extends: "values_insert k x v = Inr v' \<Longrightarrow> \<exists>suf. v' = v @ suf"
  by (auto simp: values_insert_def split: if_splits)

lemma insert_prediction_extends:
  "insert_prediction predict st i p v = Inr v' \<Longrightarrow> \<exists>suf. v' = v @ suf"
  by (auto simp: insert_prediction_def Let_def values_insert_def split: sum.splits if_splits)

lemma init_loop_extends:
  "init_loop integ predict st dt steps i xs (p, v) = Inr (p', v') \<Longrightarrow> \<exists>suf. v' = v @ suf"
proof (induction xs arbitrary: i p v)
  case Nil
  then show ?case by simp
next
  case (Cons x xs)
  obtain a w where x: "x = (a, w)" by (cases x)
  from Cons.prems x obtain v1 where
    v1: "(if i \<in> set steps then insert_prediction predict st i p v else Inr v) = Inr v1" and
    l: "init_loop integ predict st dt steps (Suc i) xs (integ p a w (dt ! i), v1) = Inr (p', v')"
    by (auto split: sum.splits if_splits)
  from v1 obtain s1 where "v1 = v @ s1"
    using insert_prediction_extends[of predict st i p v v1] by (auto split: if_splits)
  moreover from Cons.IH[OF l] obtain s2 where "v' = v1 @ s2" by blast
  ultimately show ?case by simp
qed

lemma landmark_values_extends:
  "landmark_values rand js v = Inr v' \<Longrightarrow> \<exists>suf. v' = v @ suf"
proof (induction js arbitrary: v)
  case Nil
  then show ?case by simp
next
  case (Cons j js)
  from Cons.prems obtain v1 where
    v1: "values_insert (symbol CHR ''m'' j) (VPoint3 (rand j)) v = Inr v1" and
    l: "landmark_values rand js v1 = Inr v'"
    by (auto split: sum.splits)
  from values_insert_extends[OF v1] Cons.IH[OF l] show ?case by auto
qed

lemma visual_values_extends:
  "visual_values rand lm v = Inr v' \<Longrightarrow> \<exists>suf. v' = v @ suf"
proof -
  assume a: "visual_values rand lm v = Inr v'"
  then obtain v1 where
    v1: "values_insert (symbol CHR ''r'' 0) (VPose3 body_camera_guess) v = Inr v1" and
    l: "landmark_values rand [0..<length lm] v1 = Inr v'"
    by (auto simp: visual_values_def split: sum.splits)
  from values_insert_extends[OF v1] landmark_values_extends[OF l] show ?thesis by auto
qed

lemma map_of_extends: "map_of v k = Some x \<Longrightarrow> map_of (v @ suf) k = Some x"
  by (simp add: map_add_Some_iff)

lemma make_initial_values_first:
  assumes "make_initial_values reset integ predict st dt acc gyr steps = Inr v"
    and "0 \<in> set steps" and "0 < sample_count acc gyr"
  shows "map_of v (symbol CHR ''x'' 0) = Some (VPose3 (pose (predict reset st IMU_bias))) \<and>
         map_of v (symbol CHR ''v'' 0) = Some (VVector (velocity (predict reset st IMU_bias)))"
proof -
  from assms(3) obtain a w rest where z: "zip acc gyr = (a, w) # rest"
    by (cases acc; cases gyr) (auto simp: sample_count_def)
  let ?s = "predict reset st IMU_bias"
  let ?v3 = "[(symbol CHR ''b'' 0, VBias IMU_bias), (symbol CHR ''x'' 0, VPose3 (pose ?s)),
              (symbol CHR ''v'' 0, VVector (velocity ?s))]"
  have ins: "insert_prediction predict st 0 reset [(symbol CHR ''b'' 0, VBias IMU_bias)] = Inr ?v3"
    by (simp add: insert_prediction_def Let_def values_insert_def symbol_def)
  from assms(1) z ins assms(2) obtain p' where
    l: "init_loop integ predict st dt steps (Suc 0) rest (integ reset a w (dt ! 0), ?v3) = Inr (p', v)"
    by (auto simp: make_initial_values_def values_insert_def split: sum.splits if_splits)
  from init_loop_extends[OF l] obtain suf where v: "v = ?v3 @ suf" by blast
  have "map_of ?v3 (symbol CHR ''x'' 0) = Some (VPose3 (pose ?s))"
    "map_of ?v3 (symbol CHR ''v'' 0) = Some (VVector (velocity ?s))"
    by (simp_all add: symbol_def)
  then show ?thesis unfolding v by (intro conjI map_of_extends)
qed

lemma predict_pim_reset: "predict_pim resetIntegration st b = st"
proof -
  obtain R t v where st: "st = \<lparr>pose = \<lparr>rotation = R, translation = t\<rparr>, velocity = v\<rparr>"
    by (cases st, cases "pose st") auto
  obtain r1 r2 r3 where R: "R = (r1, r2, r3)" by (cases R)
  obtain a1 a2 a3 where r1: "r1 = (a1, a2, a3)" by (cases r1)
  obtain b1 b2 b3 where r2: "r2 = (b1, b2, b3)" by (cases r2)
  obtain c1 c2 c3 where r3: "r3 = (c1, c2, c3)" by (cases r3)
  obtain t1 t2 t3 where t: "t = (t1, t2, t3)" by (cases t)
  obtain v1 v2 v3 where v: "v = (v1, v2, v3)" by (cases v)
  show ?thesis
    unfolding st R r1 r2 r3 t v
    by (simp add: predict_pim_def resetIntegration_def identity3_def zero3_def gravity_def)
qed

lemma assemble_values_extend:
  assumes "assemble uv rm reset integ predict R built vis = Inr (g, v)"
  shows "\<exists>v1 suf. make_initial_values reset integ predict (initial_state R) (b_dt built)
           (b_acc built) (b_gyr built) (decimate (b_steps built)) = Inr v1 \<and> v = v1 @ suf"
proof (cases uv)
  case True
  with assms obtain lm v1 where
    c: "make_initial_values reset integ predict (initial_state R) (b_dt built) (b_acc built)
          (b_gyr built) (decimate (b_steps built)) = Inr v1" and
    d: "visual_values (v_rand vis) lm v1 = Inr v"
    by (auto simp: assemble_def Let_def split: sum.splits)
  from visual_values_extends[OF d] c show ?thesis by blast
next
  case False
  with assms have "make_initial_values reset integ predict (initial_state R) (b_dt built)
      (b_acc built) (b_gyr built) (decimate (b_steps built)) = Inr v"
    by (auto simp: assemble_def Let_def split: sum.splits)
  then show ?thesis by simp
qed

lemma main_initial_values_first:
  assumes "main uv rm reset integ predict optimizer R built vis = Inr r"
    and "0 \<in> set (decimate (b_steps built))"
    and "0 < sample_count (b_acc built) (b_gyr built)"
  shows "map_of (initial_values r) (symbol CHR ''x'' 0) =
           Some (VPose3 (pose (predict reset (initial_state R) IMU_bias))) \<and>
         map_of (initial_values r) (symbol CHR ''v'' 0) =
           Some (VVector (velocity (predict reset (initial_state R) IMU_bias)))"
proof -
  from assms(1) obtain g v where
    a: "assemble uv rm reset integ predict R built vis = Inr (g, v)" and
    r: "initial_values r = v"
    by (auto simp: main_def split: sum.splits)
  from assemble_values_extend[OF a] obtain v1 suf where
    c: "make_initial_values reset integ predict (initial_state R) (b_dt built) (b_acc built)
          (b_gyr built) (decimate (b_steps built)) = Inr v1" and
    v: "v = v1 @ suf"
    by blast
  from make_initial_values_first[OF c assms(2,3)] show ?thesis
    unfolding r v by (simp add: map_of_extends)
qed

subsection \<open>The return-to-start priors\<close>

lemma projection_factors_superset:
  "projection_factors steps cal j occ g = Inr g' \<Longrightarrow> set g \<subseteq> set g'"
  by (induction steps cal j occ g rule: projection_factors.induct)
     (auto split: if_splits)

lemma visual_loop_superset:
  "visual_loop steps cal j lm g = Inr g' \<Longrightarrow> set g \<subseteq> set g'"
proof (induction lm arbitrary: j g)
  case Nil
  then show ?case by simp
next
  case (Cons occ lm)
  from Cons.prems obtain g1 where
    a: "projection_factors steps cal j occ g = Inr g1" and
    b: "visual_loop steps cal (Suc j) lm g1 = Inr g'"
    by (auto split: sum.splits)
  from projection_factors_superset[OF a] Cons.IH[OF b] show ?case by blast
qed

lemma add_prior_factors_return:
  "add_prior_factors uv steps st g = Inr g1 \<Longrightarrow> set (return_to_start_priors steps st) \<subseteq> set g1"
  by (auto simp: add_prior_factors_def return_to_start_priors_def split: list.splits)

lemma assemble_return_priors:
  assumes "assemble uv rm reset integ predict R built vis = Inr (g, v)"
  shows "set (return_to_start_priors (decimate (b_steps built)) (initial_state R)) \<subseteq> set g"
proof (cases uv)
  case True
  with assms obtain imu :: "('a, 'b) imu_state" and g1 lm where
    b: "add_prior_factors uv (decimate (b_steps built)) (initial_state R) (factor_graph imu)
          = Inr g1" and
    c: "visual_loop (decimate (b_steps built))
          (map (v_camera_intrinsics vis) (video_frame_steps (b_steps built))) 0 lm g1 = Inr g"
    by (auto simp: assemble_def add_visual_factors_def Let_def split: sum.splits)
  from add_prior_factors_return[OF b] visual_loop_superset[OF c] show ?thesis by blast
next
  case False
  with assms obtain imu :: "('a, 'b) imu_state" where
    "add_prior_factors uv (decimate (b_steps built)) (initial_state R) (factor_graph imu)
       = Inr g"
    by (auto simp: assemble_def Let_def split: sum.splits)
  then show ?thesis by (rule add_prior_factors_return)
qed

subsection \<open>Well-formed input reaches the optimizer\<close>

lemma insert_prediction_fresh:
  assumes "symbol CHR ''x'' i \<notin> values_keys v" "symbol CHR ''v'' i \<notin> values_keys v"
  shows "insert_prediction predict st i p v =
     Inr (v @ [(symbol CHR ''x'' i, VPose3 (pose (predict p st IMU_bias))),
               (symbol CHR ''v'' i, VVector (velocity (predict p st IMU_bias)))])"
  using assms
  by (simp add: insert_prediction_def Let_def values_insert_def values_keys_def symbol_def)

lemma init_loop_succeeds:
  assumes "i + length xs \<le> length dt"
    and "\<forall>k\<ge>i. symbol CHR ''x'' k \<notin> values_keys v \<and> symbol CHR ''v'' k \<notin> values_keys v"
  shows "\<exists>p' v'. init_loop integ predict st dt steps i xs (p, v) = Inr (p', v')"
  using assms
proof (induction xs arbitrary: i p v)
  case Nil
  then show ?case by simp
next
  case (Cons x xs)
  obtain a w where x: "x = (a, w)" by (cases x)
  let ?v1 = "if i \<in> set steps
     then v @ [(symbol CHR ''x'' i, VPose3 (pose (predict p st IMU_bias))),
               (symbol CHR ''v'' i, VVector (velocity (predict p st IMU_bias)))]
     else v"
  have v1: "(if i \<in> set steps then insert_prediction predict st i p v else Inr v) = Inr ?v1"
    using Cons.prems(2) by (simp add: insert_prediction_fresh)
  have fresh: "\<forall>k\<ge>Suc i. symbol CHR ''x'' k \<notin> values_keys ?v1 \<and>
       symbol CHR ''v'' k \<notin> values_keys ?v1"
    using Cons.prems(2) by (simp add: values_keys_def symbol_def)
  have len: "Suc i + length xs \<le> length dt" "i < length dt" using Cons.prems(1) by simp_all
  from Cons.IH[OF len(1) fresh, of "integ p a w (dt ! i)"] obtain p' v' where
    "init_loop integ predict st dt steps (Suc i) xs (integ p a w (dt ! i), ?v1) = Inr (p', v')"
    by blast
  then show ?case using v1 len(2) unfolding x by simp
qed

lemma make_initial_values_succeeds:
  assumes "sample_count acc gyr \<le> length dt"
  shows "\<exists>v. make_initial_values reset integ predict st dt acc gyr steps = Inr v"
proof -
  let ?v0 = "[(symbol CHR ''b'' 0, VBias IMU_bias)]"
  have "length (zip acc gyr) = sample_count acc gyr" by (simp add: sample_count_def)
  then have "0 + length (zip acc gyr) \<le> length dt" using assms by simp
  moreover have "\<forall>k\<ge>0. symbol CHR ''x'' k \<notin> values_keys ?v0 \<and>
      symbol CHR ''v'' k \<notin> values_keys ?v0"
    by (simp add: values_keys_def symbol_def)
  ultimately obtain p' v' where
    "init_loop integ predict st dt steps 0 (zip acc gyr) (reset, ?v0) = Inr (p', v')"
    using init_loop_succeeds[of 0 "zip acc gyr" dt ?v0 integ predict st steps reset] by blast
  then show ?thesis by (simp add: make_initial_values_def values_insert_def)
qed

lemma main_succeeds:
  assumes "sorted_wrt (<) (decimate (b_steps built))" "2 \<le> length (decimate (b_steps built))"
    "last (decimate (b_steps built)) < sample_count (b_acc built) (b_gyr built)"
    "sample_count (b_acc built) (b_gyr built) \<le> length (b_dt built)"
  shows "\<exists>r. main False rm reset integ predict optimizer R built vis = Inr r"
proof -
  let ?steps = "decimate (b_steps built)"
  obtain imu :: "('a, 'b) imu_state" where
    a: "add_imu_factors reset integ (b_dt built) (b_acc built) (b_gyr built) ?steps = Inr imu"
    using add_imu_factors_result[OF assms, of reset integ] by (rule that)
  from assms(2) have "?steps \<noteq> []" by auto
  then obtain g1 where
    b: "add_prior_factors False ?steps (initial_state R) (factor_graph imu) = Inr g1"
    by (cases ?steps) (auto simp: add_prior_factors_def)
  from make_initial_values_succeeds[OF assms(4), of reset integ predict "initial_state R" ?steps]
  obtain v1 where
    c: "make_initial_values reset integ predict (initial_state R) (b_dt built) (b_acc built)
          (b_gyr built) ?steps = Inr v1"
    by blast
  show ?thesis using a b c by (simp add: main_def assemble_def)
qed

lemma ex13_wf:
  "sorted_wrt (<) (decimate (b_steps (example_built 13 13)))"
  "2 \<le> length (decimate (b_steps (example_built 13 13)))"
  "last (decimate (b_steps (example_built 13 13)))
     < sample_count (b_acc (example_built 13 13)) (b_gyr (example_built 13 13))"
  "sample_count (b_acc (example_built 13 13)) (b_gyr (example_built 13 13))
     \<le> length (b_dt (example_built 13 13))"
  by (simp_all add: ex13_steps ex_count)

lemma ex7_wf:
  "sorted_wrt (<) (decimate (b_steps (example_built 7 7)))"
  "2 \<le> length (decimate (b_steps (example_built 7 7)))"
  "last (decimate (b_steps (example_built 7 7)))
     < sample_count (b_acc (example_built 7 7)) (b_gyr (example_built 7 7))"
  "sample_count (b_acc (example_built 7 7)) (b_gyr (example_built 7 7))
     \<le> length (b_dt (example_built 7 7))"
  by (simp_all add: ex7_steps ex_count)

lemma ex13_run:
  "add_imu_factors rec_reset rec_integ (b_dt (example_built 13 13))
      (b_acc (example_built 13 13)) (b_gyr (example_built 13 13))
      (decimate (b_steps (example_built 13 13))) =
   Inr \<lparr>factor_graph =
          [imu_factor_of 0 6 (map (\<lambda>i. ((real i, 0, 0), zero3, 1 / 200)) [0..<6]),
           imu_factor_of 6 12 (map (\<lambda>i. ((real i, 0, 0), zero3, 1 / 200)) [6..<12])],
        current_preintegrated_IMU = [((12, 0, 0), zero3, 1 / 200)],
        current_imu_factor_pair = (6, 12), imu_factor_pairs = []\<rparr>"
proof -
  have "add_imu_factors rec_reset rec_integ (b_dt (example_built 13 13))
      (b_acc (example_built 13 13)) (b_gyr (example_built 13 13)) [0, 6, 12] =
    Inr \<lparr>factor_graph = pair_factors rec_reset rec_integ (b_dt (example_built 13 13))
      (b_acc (example_built 13 13)) (b_gyr (example_built 13 13)) 0 rec_reset
        (factor_pairs [0, 6, 12]),
          current_preintegrated_IMU =
            integrate_range rec_integ (b_dt (example_built 13 13))
      (b_acc (example_built 13 13)) (b_gyr (example_built 13 13)) (last [0, 6, 12])
        (sample_count (b_acc (example_built 13 13)) (b_gyr (example_built 13 13))) rec_reset,
          current_imu_factor_pair = last (factor_pairs [0, 6, 12]), imu_factor_pairs = []\<rparr>"
    by (rule add_imu_factors_result) (simp_all add: ex_count)
  then show ?thesis
    by (simp add: ex13_steps ex_count factor_pairs_def rec_integrate_range rec_reset_def ex_nth
        upt_rec)
qed

lemma ex7_run':
  "add_imu_factors rec_reset rec_integ (b_dt (example_built 7 7))
      (b_acc (example_built 7 7)) (b_gyr (example_built 7 7)) [0, 6] =
   Inr \<lparr>factor_graph =
          [imu_factor_of 0 6 (map (\<lambda>i. ((real i, 0, 0), zero3, 1 / 200)) [0..<6])],
        current_preintegrated_IMU = [((6, 0, 0), zero3, 1 / 200)],
        current_imu_factor_pair = (0, 6), imu_factor_pairs = []\<rparr>"
  using ex7_run unfolding ex7_steps .

lemma ex_steps_len: "length (b_steps (example_built m n)) = m"
  by (simp add: example_built_def)

lemma ex7_values:
  "make_initial_values rec_reset rec_integ keep_reference (initial_state identity3)
     (b_dt (example_built 7 7)) (b_acc (example_built 7 7)) (b_gyr (example_built 7 7)) [0, 6] =
   Inr [(symbol CHR ''b'' 0, VBias IMU_bias),
        (symbol CHR ''x'' 0, VPose3 (pose (initial_state identity3))),
        (symbol CHR ''v'' 0, VVector (velocity (initial_state identity3))),
        (symbol CHR ''x'' 6, VPose3 (pose (initial_state identity3))),
        (symbol CHR ''v'' 6, VVector (velocity (initial_state identity3)))]"
  by (simp add: make_initial_values_def values_insert_def insert_prediction_def Let_def
      keep_reference_def example_built_def symbol_def upt_rec numeral_eq_Suc)

lemma ex7_assemble_visual:
  "\<not> isl (assemble True True rec_reset rec_integ keep_reference identity3
            (example_built 7 7) example_vis)"
  by (simp add: assemble_def Let_def ex7_steps ex7_run' ex7_values add_prior_factors_def
      add_visual_factors_def matching_step_def example_vis_def video_frame_steps_def
      range_step_def PREINTEGRATE_EVERY_FRAMES_def visual_values_def values_insert_def
      symbol_def ex_steps_len upt_rec)

lemma assemble_imu_only:
  "assemble False rm reset integ predict R built vis =
     assemble False rm' reset integ predict R built vis'"
  by (auto simp: assemble_def Let_def split: sum.splits)


subsection \<open>A keyframe beyond the samples\<close>

text \<open>
  Seven camera frames over five IMU samples: the decimated keyframes are 0 and 6, and the
  loop never reaches index 6.
\<close>

lemma ex75_steps: "decimate (b_steps (example_built 7 5)) = [0, 6]"
  by (simp add: example_built_def decimate_def PREINTEGRATE_EVERY_FRAMES_def upt_rec)

lemma ex75_imu:
  "add_imu_factors rec_reset rec_integ (b_dt (example_built 7 5))
      (b_acc (example_built 7 5)) (b_gyr (example_built 7 5)) [0, 6] =
   Inr (\<lparr>factor_graph = [],
        current_preintegrated_IMU =
          integrate_range rec_integ (b_dt (example_built 7 5)) (b_acc (example_built 7 5))
            (b_gyr (example_built 7 5)) 0 5 rec_reset,
        current_imu_factor_pair = (0, 6), imu_factor_pairs = []\<rparr>
        :: (recording, unit) imu_state)"
proof -
  let ?st0 = "\<lparr>factor_graph = [], current_preintegrated_IMU = rec_reset,
       current_imu_factor_pair = (0, 6), imu_factor_pairs = []\<rparr>
       :: (recording, unit) imu_state"
  have "imu_loop rec_reset rec_integ (b_dt (example_built 7 5)) 0
      (map (\<lambda>j. (b_acc (example_built 7 5) ! j, b_gyr (example_built 7 5) ! j)) [0..<5]) ?st0 =
    Inr (?st0\<lparr>current_preintegrated_IMU :=
          integrate_range rec_integ (b_dt (example_built 7 5)) (b_acc (example_built 7 5))
            (b_gyr (example_built 7 5)) 0 5 (current_preintegrated_IMU ?st0)\<rparr>)"
    by (rule imu_loop_no_boundary) (simp_all add: ex_count)
  then show ?thesis
    by (simp add: add_imu_factors_def factor_pairs_def
        zip_nth_map[of "b_acc (example_built 7 5)" "b_gyr (example_built 7 5)"] ex_count)
qed

lemma ex75_values:
  "make_initial_values rec_reset rec_integ keep_reference (initial_state identity3)
     (b_dt (example_built 7 5)) (b_acc (example_built 7 5)) (b_gyr (example_built 7 5)) [0, 6] =
   Inr [(symbol CHR ''b'' 0, VBias IMU_bias),
        (symbol CHR ''x'' 0, VPose3 (pose (initial_state identity3))),
        (symbol CHR ''v'' 0, VVector (velocity (initial_state identity3)))]"
  by (simp add: make_initial_values_def values_insert_def insert_prediction_def Let_def
      keep_reference_def example_built_def symbol_def upt_rec numeral_eq_Suc)

section \<open>The claims\<close>

text \<open>
  C1 (amended). For strictly increasing retained keyframes that are valid sample indices,
  the sample index ranges of the emitted motion factors tile exactly the indices below the
  last retained keyframe, with no gap and no overlap; the samples from the last retained
  keyframe on are integrated into the live accumulator, which no factor carries.
\<close>

theorem imu_ranges_tile_below_last_keyframe:
  assumes "sorted_wrt (<) steps" and "2 \<le> length steps"
    and "last steps < sample_count acc gyr" and "sample_count acc gyr \<le> length dt"
  shows "\<exists>st. add_imu_factors reset integ dt acc gyr steps = Inr st \<and>
     factor_graph st =
       map2 (\<lambda>(s, e) (lo, hi). imu_factor_of s e (integrate_range integ dt acc gyr lo hi reset))
         (factor_pairs steps) (factor_ranges steps) \<and>
     length (factor_ranges steps) = length (factor_pairs steps) \<and>
     range_indices (factor_ranges steps) = [0..<last steps] \<and>
     current_preintegrated_IMU st =
       integrate_range integ dt acc gyr (last steps) (sample_count acc gyr) reset"
proof -
  let ?st = "\<lparr>factor_graph = pair_factors reset integ dt acc gyr 0 reset (factor_pairs steps),
       current_preintegrated_IMU =
         integrate_range integ dt acc gyr (last steps) (sample_count acc gyr) reset,
       current_imu_factor_pair = last (factor_pairs steps), imu_factor_pairs = []\<rparr>
       :: ('a, 'b) imu_state"
  have res: "add_imu_factors reset integ dt acc gyr steps = Inr ?st"
    by (rule add_imu_factors_result[OF assms])
  have tl: "tl steps \<noteq> []" using assms(2) by (cases steps) auto
  have "sorted_wrt (<) (0 # tl steps)"
    using assms(1) tl by (cases steps) auto
  then have r1: "range_indices (factor_ranges steps) = [0..<last steps]"
    using tl by (simp add: factor_ranges_def range_indices_ranges_from last_tl)
  have r2: "pair_factors reset integ dt acc gyr 0 reset (factor_pairs steps) =
       map2 (\<lambda>(s, e) (lo, hi). imu_factor_of s e (integrate_range integ dt acc gyr lo hi reset))
         (factor_pairs steps) (factor_ranges steps)"
    by (simp only: pair_factors_map2 factor_pairs_snd factor_ranges_def)
  have r3: "length (factor_ranges steps) = length (factor_pairs steps)"
    by (simp add: factor_ranges_def length_factor_pairs)
  show ?thesis
    by (rule exI[of _ ?st]) (simp add: res r1 r2 r3)
qed

theorem imu_ranges_tile_below_last_keyframe_witness:
  "\<exists>st :: (recording, unit) imu_state.
     add_imu_factors rec_reset rec_integ (b_dt (example_built 13 13))
       (b_acc (example_built 13 13)) (b_gyr (example_built 13 13))
       (decimate (b_steps (example_built 13 13))) = Inr st \<and>
     range_indices (factor_ranges (decimate (b_steps (example_built 13 13)))) = [0..<12]"
proof -
  from imu_ranges_tile_below_last_keyframe[OF ex13_wf, of rec_reset rec_integ]
  obtain st :: "(recording, unit) imu_state" where
    "add_imu_factors rec_reset rec_integ (b_dt (example_built 13 13))
       (b_acc (example_built 13 13)) (b_gyr (example_built 13 13))
       (decimate (b_steps (example_built 13 13))) = Inr st"
    "range_indices (factor_ranges (decimate (b_steps (example_built 13 13)))) =
       [0..<last (decimate (b_steps (example_built 13 13)))]"
    by blast
  then show ?thesis by (auto simp: ex13_steps)
qed

theorem last_sample_in_no_factor:
  "(case add_imu_factors rec_reset rec_integ (b_dt (example_built 7 7))
           (b_acc (example_built 7 7)) (b_gyr (example_built 7 7))
           (decimate (b_steps (example_built 7 7))) of
      Inl err \<Rightarrow> False
    | Inr (st :: (recording, unit) imu_state) \<Rightarrow>
        6 < sample_count (b_acc (example_built 7 7)) (b_gyr (example_built 7 7)) \<and>
        (b_acc (example_built 7 7) ! 6, b_gyr (example_built 7 7) ! 6,
         b_dt (example_built 7 7) ! 6)
          \<notin> set (concat (imu_measurements (factor_graph st))))"
  by (simp add: ex7_run ex_nth imu_factor_of_def) (auto simp: ex_count)

text \<open>
  C2. The stride slice keeps position 0, 6, 12, ...: of eight keyframes the last one,
  index 7, is dropped.
\<close>

theorem decimate_drops_last_keyframe:
  "decimate [0, 1, 2, 3, 4, 5, 6, 7] = [0, 6] \<and>
   last [0, 1, 2, 3, 4, 5, 6, 7 :: nat] = 7 \<and>
   last [0, 1, 2, 3, 4, 5, 6, 7] \<notin> set (decimate [0, 1, 2, 3, 4, 5, 6, 7])"
  by (simp add: decimate_def PREINTEGRATE_EVERY_FRAMES_def)

text \<open>
  C3 (amended). For strictly increasing retained keyframes that are valid sample indices,
  exactly one motion factor is emitted per retained pair \<open>(s, e)\<close>, on the keys of pose
  and velocity at \<open>s\<close> and at \<open>e\<close> and the shared bias; it carries the samples
  \<open>s, ..., e - 1\<close> (the first factor every sample below its end). The boundary sample
  \<open>e\<close> is integrated after the reset: it opens the next pair's measurement, or, for the
  last pair, the accumulator left over.
\<close>

theorem one_factor_per_pair_half_open:
  assumes "sorted_wrt (<) steps" and "2 \<le> length steps"
    and "last steps < sample_count acc gyr" and "sample_count acc gyr \<le> length dt"
  shows "\<exists>st. add_imu_factors reset integ dt acc gyr steps = Inr st \<and>
     length (factor_graph st) = length (factor_pairs steps) \<and>
     (\<forall>k<length (factor_pairs steps).
        factor_pairs steps ! k = (steps ! k, steps ! Suc k) \<and>
        factor_graph st ! k =
          imu_factor_of (steps ! k) (steps ! Suc k)
            (integrate_range integ dt acc gyr (if k = 0 then 0 else steps ! k)
               (steps ! Suc k) reset)) \<and>
     current_preintegrated_IMU st =
       integrate_range integ dt acc gyr (last steps) (sample_count acc gyr) reset"
proof -
  let ?g = "pair_factors reset integ dt acc gyr 0 reset (factor_pairs steps)"
  have len: "length ?g = length (factor_pairs steps)"
    by (simp add: pair_factors_map2 factor_pairs_snd length_factor_pairs)
  have nth: "factor_pairs steps ! k = (steps ! k, steps ! Suc k) \<and>
      ?g ! k = imu_factor_of (steps ! k) (steps ! Suc k)
            (integrate_range integ dt acc gyr (if k = 0 then 0 else steps ! k)
               (steps ! Suc k) reset)"
    if k: "k < length (factor_pairs steps)" for k
  proof -
    have k': "k < length steps - 1" using k by (simp add: length_factor_pairs)
    then have klen: "k < length (tl steps)" by simp
    have p: "factor_pairs steps ! k = (steps ! k, steps ! Suc k)"
      using k' by (rule factor_pairs_nth)
    have r: "ranges_from 0 (tl steps) ! k = (if k = 0 then 0 else steps ! k, steps ! Suc k)"
      using ranges_from_nth[OF klen, of 0] k' by (auto simp: nth_tl)
    show ?thesis using k k' p r
      by (simp add: pair_factors_map2 factor_pairs_snd)
  qed
  let ?st = "\<lparr>factor_graph = ?g,
       current_preintegrated_IMU =
         integrate_range integ dt acc gyr (last steps) (sample_count acc gyr) reset,
       current_imu_factor_pair = last (factor_pairs steps), imu_factor_pairs = []\<rparr>
       :: ('a, 'b) imu_state"
  have res: "add_imu_factors reset integ dt acc gyr steps = Inr ?st"
    by (rule add_imu_factors_result[OF assms])
  show ?thesis
    by (rule exI[of _ ?st]) (simp add: res len nth)
qed

theorem one_factor_per_pair_half_open_witness:
  "\<exists>st :: (recording, unit) imu_state.
     add_imu_factors rec_reset rec_integ (b_dt (example_built 13 13))
       (b_acc (example_built 13 13)) (b_gyr (example_built 13 13))
       (decimate (b_steps (example_built 13 13))) = Inr st \<and>
     length (factor_graph st) = 2 \<and>
     factor_graph st ! 1 =
       imu_factor_of 6 12
         (integrate_range rec_integ (b_dt (example_built 13 13))
            (b_acc (example_built 13 13)) (b_gyr (example_built 13 13)) 6 12 rec_reset)"
proof -
  have two: "length (factor_pairs (decimate (b_steps (example_built 13 13)))) = 2"
    by (simp add: ex13_steps factor_pairs_def)
  from one_factor_per_pair_half_open[OF ex13_wf, of rec_reset rec_integ]
  obtain st :: "(recording, unit) imu_state" where
    st: "add_imu_factors rec_reset rec_integ (b_dt (example_built 13 13))
       (b_acc (example_built 13 13)) (b_gyr (example_built 13 13))
       (decimate (b_steps (example_built 13 13))) = Inr st"
    "length (factor_graph st) = length (factor_pairs (decimate (b_steps (example_built 13 13))))"
    "\<forall>k<length (factor_pairs (decimate (b_steps (example_built 13 13)))).
        factor_graph st ! k =
          imu_factor_of (decimate (b_steps (example_built 13 13)) ! k)
            (decimate (b_steps (example_built 13 13)) ! Suc k)
            (integrate_range rec_integ (b_dt (example_built 13 13))
              (b_acc (example_built 13 13)) (b_gyr (example_built 13 13))
              (if k = 0 then 0 else decimate (b_steps (example_built 13 13)) ! k)
               (decimate (b_steps (example_built 13 13)) ! Suc k) rec_reset)"
    by blast
  from st(3) two have "factor_graph st ! 1 =
          imu_factor_of (decimate (b_steps (example_built 13 13)) ! 1)
            (decimate (b_steps (example_built 13 13)) ! Suc 1)
            (integrate_range rec_integ (b_dt (example_built 13 13))
              (b_acc (example_built 13 13)) (b_gyr (example_built 13 13))
              (if (1::nat) = 0 then 0 else decimate (b_steps (example_built 13 13)) ! 1)
               (decimate (b_steps (example_built 13 13)) ! Suc 1) rec_reset)"
    by (metis one_less_numeral_iff semiring_norm(76))
  then show ?thesis using st(1,2) two by (auto simp: ex13_steps)
qed

theorem boundary_sample_opens_next_factor:
  "(case add_imu_factors rec_reset rec_integ (b_dt (example_built 13 13))
           (b_acc (example_built 13 13)) (b_gyr (example_built 13 13))
           (decimate (b_steps (example_built 13 13))) of
      Inl err \<Rightarrow> False
    | Inr (st :: (recording, unit) imu_state) \<Rightarrow>
        factor_pairs (decimate (b_steps (example_built 13 13))) = [(0, 6), (6, 12)] \<and>
        length (imu_measurements (factor_graph st)) = 2 \<and>
        (b_acc (example_built 13 13) ! 6, b_gyr (example_built 13 13) ! 6,
         b_dt (example_built 13 13) ! 6) \<notin> set (imu_measurements (factor_graph st) ! 0) \<and>
        hd (imu_measurements (factor_graph st) ! 1) =
          (b_acc (example_built 13 13) ! 6, b_gyr (example_built 13 13) ! 6,
           b_dt (example_built 13 13) ! 6))"
  by (simp add: ex13_run ex_nth imu_factor_of_def)
     (auto simp: ex13_steps factor_pairs_def)

text \<open>
  C4 (amended). With the visual factors off, when the run reaches the optimizer and every
  retained keyframe is a valid sample index, every key a factor of the graph mentions has an
  entry in the initial values. The script does not check the condition: a retained keyframe
  at or beyond the number of samples gets its priors and no initial value.
\<close>

theorem graph_keys_have_initial_values:
  assumes "main False rm reset integ predict optimizer R built vis = Inr r"
    and "\<forall>k\<in>set (decimate (b_steps built)). k < sample_count (b_acc built) (b_gyr built)"
  shows "graph_keys (graph r) \<subseteq> values_keys (initial_values r)"
  using assms by (rule main_keys)

theorem graph_keys_have_initial_values_witness:
  "\<exists>r. main False True rec_reset rec_integ keep_reference (example_solver 3 True) identity3
          (example_built 13 13) example_vis = Inr r \<and>
        graph_keys (graph r) \<subseteq> values_keys (initial_values r)"
proof -
  from main_succeeds[OF ex13_wf, of True rec_reset rec_integ keep_reference
      "example_solver 3 True" identity3 example_vis]
  obtain r where
    r: "main False True rec_reset rec_integ keep_reference (example_solver 3 True) identity3
          (example_built 13 13) example_vis = Inr r"
    by blast
  have valid: "\<forall>k\<in>set (decimate (b_steps (example_built 13 13))).
      k < sample_count (b_acc (example_built 13 13)) (b_gyr (example_built 13 13))"
    by (simp add: ex13_steps ex_count)
  from graph_keys_have_initial_values[OF r valid] r show ?thesis by blast
qed

theorem out_of_range_keyframe_has_no_initial_value:
  "(case main False True rec_reset rec_integ keep_reference (example_solver 3 True) identity3
           (example_built 7 5) example_vis of
      Inl err \<Rightarrow> False
    | Inr r \<Rightarrow>
        symbol CHR ''x'' 6 \<in> graph_keys (graph r) \<and>
        symbol CHR ''x'' 6 \<notin> values_keys (initial_values r))"
  by (simp add: main_def assemble_def Let_def ex75_steps ex75_imu ex75_values
      add_prior_factors_def values_keys_def symbol_def)

text \<open>
  C5 (amended). If the sub-sampled keyframe list has fewer than two entries, the run ends
  with \<open>StopIteration\<close>, raised by the unguarded first \<open>next\<close> of the pair iterator,
  and no graph is returned.
\<close>

theorem degenerate_keyframes_stop_iteration:
  assumes "length (decimate (b_steps built)) < 2"
  shows "main uv rm reset integ predict optimizer R built vis = Inl StopIteration"
  using assms by (rule main_stop_iteration)

theorem degenerate_keyframes_stop_iteration_witness:
  "length (decimate (b_steps (example_built 3 20))) < 2 \<and>
   main False True rec_reset rec_integ keep_reference (example_solver 3 True) identity3
     (example_built 3 20) example_vis = Inl StopIteration"
proof -
  have short: "length (decimate (b_steps (example_built 3 20))) < 2"
    by (simp add: example_built_def decimate_def PREINTEGRATE_EVERY_FRAMES_def upt_rec)
  show ?thesis using short degenerate_keyframes_stop_iteration[OF short] by simp
qed

theorem degenerate_keyframes_not_alignment_error:
  "length (decimate (b_steps (example_built 6 40))) < 2 \<and>
   main False True rec_reset rec_integ keep_reference (example_solver 3 True) identity3
     (example_built 6 40) example_vis = Inl StopIteration \<and>
   main False True rec_reset rec_integ keep_reference (example_solver 3 True) identity3
     (example_built 6 40) example_vis \<noteq> Inl AlignmentError"
  by (simp add: main_def assemble_def add_imu_factors_def ex_short_steps factor_pairs_def)

text \<open>
  C6. An engine as the specification describes it predicts the reference state itself
  right after a reset; so, when index 0 is a retained keyframe and there is a sample, the
  initial values at \<open>x0\<close> and \<open>v0\<close> are the pose and the velocity of the configured
  initial state.
\<close>

theorem predict_after_reset_is_reference:
  "predict_pim resetIntegration ref b = ref \<and>
   (main uv rm resetIntegration integ predict_pim optimizer R built vis = Inr r \<longrightarrow>
    0 \<in> set (decimate (b_steps built)) \<longrightarrow>
    0 < sample_count (b_acc built) (b_gyr built) \<longrightarrow>
    map_of (initial_values r) (symbol CHR ''x'' 0) = Some (VPose3 (pose (initial_state R))) \<and>
    map_of (initial_values r) (symbol CHR ''v'' 0) =
      Some (VVector (velocity (initial_state R))))"
  using main_initial_values_first[of uv rm resetIntegration integ predict_pim optimizer R
      built vis r]
  by (simp add: predict_pim_reset)

theorem predict_after_reset_is_reference_witness:
  "\<exists>r. main False True resetIntegration (\<lambda>p a w d. p\<lparr>deltaTij := deltaTij p + d\<rparr>)
          predict_pim (example_solver 3 True) identity3 (example_built 13 13) example_vis
          = Inr r \<and>
        0 \<in> set (decimate (b_steps (example_built 13 13))) \<and>
        0 < sample_count (b_acc (example_built 13 13)) (b_gyr (example_built 13 13)) \<and>
        map_of (initial_values r) (symbol CHR ''x'' 0)
          = Some (VPose3 (pose (initial_state identity3))) \<and>
        map_of (initial_values r) (symbol CHR ''v'' 0)
          = Some (VVector (velocity (initial_state identity3)))"
proof -
  from main_succeeds[OF ex13_wf, of True resetIntegration
      "\<lambda>p a w d. p\<lparr>deltaTij := deltaTij p + d\<rparr>" predict_pim
      "example_solver 3 True" identity3 example_vis]
  obtain r where
    r: "main False True resetIntegration (\<lambda>p a w d. p\<lparr>deltaTij := deltaTij p + d\<rparr>)
          predict_pim (example_solver 3 True) identity3 (example_built 13 13) example_vis
          = Inr r"
    by blast
  have h: "0 \<in> set (decimate (b_steps (example_built 13 13)))"
    "0 < sample_count (b_acc (example_built 13 13)) (b_gyr (example_built 13 13))"
    by (simp_all add: ex13_steps ex_count)
  from predict_after_reset_is_reference[of "initial_state identity3" IMU_bias False True
      "\<lambda>p a w d. p\<lparr>deltaTij := deltaTij p + d\<rparr>" "example_solver 3 True" identity3
      "example_built 13 13" example_vis r] r h
  show ?thesis by blast
qed

text \<open>
  C7 (amended). The run keeps the estimate \<open>optimize()\<close> returns and nothing else of
  the optimizer: two optimizers that return the same estimates give the same result,
  whatever their iteration counts and convergence.
\<close>

theorem result_keeps_estimate_only:
  assumes "\<forall>g v. estimate (opt1 g v) = estimate (opt2 g v)"
  shows "main uv rm reset integ predict opt1 R built vis =
         main uv rm reset integ predict opt2 R built vis"
  using assms by (simp add: main_def split: sum.splits)

theorem result_keeps_estimate_only_witness:
  "main False True rec_reset rec_integ keep_reference (example_solver 100 False) identity3
     (example_built 13 13) example_vis =
   main False True rec_reset rec_integ keep_reference (example_solver 2 True) identity3
     (example_built 13 13) example_vis"
  by (rule result_keeps_estimate_only) (simp add: example_solver_def)

theorem non_convergence_not_in_result:
  "\<not> isl (main False True rec_reset rec_integ keep_reference (example_solver 100 False)
            identity3 (example_built 7 7) example_vis) \<and>
   \<not> converged (example_solver 100 False ([] :: (recording, unit) factor list) []) \<and>
   converged (example_solver 5 True ([] :: (recording, unit) factor list) []) \<and>
   main False True rec_reset rec_integ keep_reference (example_solver 100 False) identity3
     (example_built 7 7) example_vis =
   main False True rec_reset rec_integ keep_reference (example_solver 5 True) identity3
     (example_built 7 7) example_vis"
proof -
  from main_succeeds[OF ex7_wf, of True rec_reset rec_integ keep_reference
      "example_solver 100 False" identity3 example_vis]
  have "\<not> isl (main False True rec_reset rec_integ keep_reference (example_solver 100 False)
            identity3 (example_built 7 7) example_vis)"
    by auto
  then show ?thesis by (auto simp: main_def example_solver_def split: sum.splits)
qed

text \<open>
  C8 (amended). The return-to-start pose and velocity priors on the last keyframe are added
  unconditionally: whatever the settings of \<open>USE_VISUAL_FACTORS\<close> and
  \<open>RECOMPUTE_MATCHING\<close>, every graph that is assembled contains them.
\<close>

theorem return_priors_in_every_graph:
  assumes "assemble uv rm reset integ predict R built vis = Inr (g, v)"
  shows "set (return_to_start_priors (decimate (b_steps built)) (initial_state R)) \<subseteq> set g"
  using assms by (rule assemble_return_priors)

theorem return_priors_in_every_graph_witness:
  "\<exists>g v. assemble False True rec_reset rec_integ keep_reference identity3
            (example_built 7 7) example_vis = Inr (g, v) \<and>
     set (return_to_start_priors (decimate (b_steps (example_built 7 7)))
            (initial_state identity3)) \<subseteq> set g"
proof -
  from main_succeeds[OF ex7_wf, of True rec_reset rec_integ keep_reference
      "example_solver 3 True" identity3 example_vis]
  obtain g v where
    a: "assemble False True rec_reset rec_integ keep_reference identity3
            (example_built 7 7) example_vis = Inr (g, v)"
    by (auto simp: main_def split: sum.splits)
  from return_priors_in_every_graph[OF a] a show ?thesis by blast
qed

theorem no_setting_omits_return_priors:
  "(case assemble False True rec_reset rec_integ keep_reference identity3
           (example_built 7 7) example_vis of
      Inl err \<Rightarrow> False
    | Inr (g, v) \<Rightarrow>
        set (return_to_start_priors (decimate (b_steps (example_built 7 7)))
               (initial_state identity3)) \<subseteq> set g) \<and>
   (case assemble True True rec_reset rec_integ keep_reference identity3
           (example_built 7 7) example_vis of
      Inl err \<Rightarrow> False
    | Inr (g, v) \<Rightarrow>
        set (return_to_start_priors (decimate (b_steps (example_built 7 7)))
               (initial_state identity3)) \<subseteq> set g) \<and>
   assemble False False rec_reset rec_integ keep_reference identity3
     (example_built 7 7) example_vis =
   assemble False True rec_reset rec_integ keep_reference identity3
     (example_built 7 7) example_vis \<and>
   assemble True False rec_reset rec_integ keep_reference identity3
     (example_built 7 7) example_vis = (Inl NameError :: error + (recording, unit) factor list \<times> vals)"
proof -
  from main_succeeds[OF ex7_wf, of True rec_reset rec_integ keep_reference
      "example_solver 3 True" identity3 example_vis]
  obtain g v where
    a: "assemble False True rec_reset rec_integ keep_reference identity3
            (example_built 7 7) example_vis = Inr (g, v)"
    by (auto simp: main_def split: sum.splits)
  from ex7_assemble_visual obtain g' v' where
    b: "assemble True True rec_reset rec_integ keep_reference identity3
            (example_built 7 7) example_vis = Inr (g', v')"
    by (cases "assemble True True rec_reset rec_integ keep_reference identity3
            (example_built 7 7) example_vis") auto
  have c: "assemble False False rec_reset rec_integ keep_reference identity3
     (example_built 7 7) example_vis =
   assemble False True rec_reset rec_integ keep_reference identity3
     (example_built 7 7) example_vis"
    by (rule assemble_imu_only)
  have d: "assemble True False rec_reset rec_integ keep_reference identity3
     (example_built 7 7) example_vis = (Inl NameError :: error + (recording, unit) factor list \<times> vals)"
    by (simp add: assemble_def Let_def ex7_steps ex7_run' add_prior_factors_def
        add_visual_factors_def matching_step_def)
  show ?thesis
    using assemble_return_priors[OF a] assemble_return_priors[OF b] c d
    by (simp add: a b)
qed


text \<open>
  C10. With \<open>USE_VISUAL_FACTORS\<close> off, graph, initial values and result are functions of
  the measurements and parameters alone: the random draws, the cache file, the detection
  and \<open>RECOMPUTE_MATCHING\<close> do not enter.
\<close>

theorem imu_only_assembly_deterministic:
  "assemble False rm reset integ predict R built vis =
     assemble False rm' reset integ predict R built vis' \<and>
   main False rm reset integ predict optimizer R built vis =
     main False rm' reset integ predict optimizer R built vis'"
  using assemble_imu_only[of rm reset integ predict R built vis rm' vis']
  by (simp add: main_def)

end
